theory Spec2Isabelle
  imports Main
begin

section \<open>Python values and string primitives\<close>

text \<open>
  A cell of a row read by \<^verbatim>\<open>csv.DictReader\<close> is either a string or \<^verbatim>\<open>None\<close>
  (the filler of a row that is shorter than the header). A Python string is modelled as a
  \<^typ>\<open>string\<close> whose characters are the code points below 256.
\<close>

datatype pyval = PyNone | PyStr string

datatype py_error = AttributeError | OSError

text \<open>Python truthiness: \<^verbatim>\<open>None\<close> and the empty string are false.\<close>

fun truthy :: "pyval \<Rightarrow> bool" where
  "truthy PyNone = False"
| "truthy (PyStr s) = (s \<noteq> [])"

text \<open>\<^verbatim>\<open>str(v)\<close>, as an f-string interpolates a value.\<close>

fun py_str :: "pyval \<Rightarrow> string" where
  "py_str PyNone = ''None''"
| "py_str (PyStr s) = s"

type_synonym row = "string \<rightharpoonup> pyval"

text \<open>\<^verbatim>\<open>row.get(k, d)\<close>; \<^verbatim>\<open>row.get(k)\<close> is \<open>py_get row k PyNone\<close>.\<close>

definition py_get :: "row \<Rightarrow> string \<Rightarrow> pyval \<Rightarrow> pyval" where
  "py_get r k d = (case r k of None \<Rightarrow> d | Some v \<Rightarrow> v)"

subsection \<open>String methods\<close>

text \<open>\<^verbatim>\<open>s.startswith(p)\<close>, \<^verbatim>\<open>s.endswith(p)\<close> and the substring test \<^verbatim>\<open>sub in s\<close>.\<close>

definition startswith :: "string \<Rightarrow> string \<Rightarrow> bool" where
  "startswith s p \<longleftrightarrow> take (length p) s = p"

definition endswith :: "string \<Rightarrow> string \<Rightarrow> bool" where
  "endswith s p \<longleftrightarrow> length p \<le> length s \<and> drop (length s - length p) s = p"

fun py_in :: "string \<Rightarrow> string \<Rightarrow> bool" where
  "py_in sub [] = (sub = [])"
| "py_in sub (c # cs) = (startswith (c # cs) sub \<or> py_in sub cs)"

text \<open>
  \<^verbatim>\<open>s.split(sep)\<close> for a non-empty separator (the source only passes the literals
  \<^verbatim>\<open>'|'\<close>, \<^verbatim>\<open>'||'\<close>, \<^verbatim>\<open>'\n\n'\<close> and \<^verbatim>\<open>'\n'\<close>): the text is scanned from the left, \<open>cur\<close>
  is the segment read so far, and a separator found at the current position closes the
  segment and is skipped whole.
\<close>

fun split_loop :: "string \<Rightarrow> string \<Rightarrow> string \<Rightarrow> string list" where
  "split_loop sep cur [] = [cur]"
| "split_loop sep cur (c # cs) =
     (if sep \<noteq> [] \<and> startswith (c # cs) sep
      then cur # split_loop sep [] (drop (length sep - 1) cs)
      else split_loop sep (cur @ [c]) cs)"

definition py_split :: "string \<Rightarrow> string \<Rightarrow> string list" where
  "py_split s sep = split_loop sep [] s"

text \<open>\<^verbatim>\<open>s.replace(old, new)\<close> for a non-empty \<open>old\<close>: every occurrence, from the left.\<close>

fun py_replace :: "string \<Rightarrow> string \<Rightarrow> string \<Rightarrow> string" where
  "py_replace [] old new = []"
| "py_replace (c # cs) old new =
     (if old \<noteq> [] \<and> startswith (c # cs) old
      then new @ py_replace (drop (length old - 1) cs) old new
      else c # py_replace cs old new)"

text \<open>
  \<^verbatim>\<open>s.strip()\<close> removes leading and trailing whitespace; below 256 the whitespace code
  points of Python are 9 to 13, 28 to 32, 133 and 160.
\<close>

definition is_space :: "char \<Rightarrow> bool" where
  "is_space c \<longleftrightarrow> (of_char c :: nat) \<in> {9, 10, 11, 12, 13, 28, 29, 30, 31, 32, 133, 160}"

definition py_strip :: "string \<Rightarrow> string" where
  "py_strip s = rev (dropWhile is_space (rev (dropWhile is_space s)))"

text \<open>\<^verbatim>\<open>sep.join(xs)\<close>.\<close>

fun py_join :: "string \<Rightarrow> string list \<Rightarrow> string" where
  "py_join sep [] = []"
| "py_join sep [x] = x"
| "py_join sep (x # y # ys) = x @ sep @ py_join sep (y # ys)"

definition newline :: string where
  "newline = [CHR 0x0A]"

section \<open>Image mirror\<close>

text \<open>
  The three patterns of \<^verbatim>\<open>extract_gdrive_file_id\<close> have one shape, a literal followed by
  the group \<^verbatim>\<open>([a-zA-Z0-9_-]+)\<close>. \<^verbatim>\<open>re.search\<close> returns the leftmost position at which
  the literal is followed by at least one character of the class, and the group is the
  longest run of such characters there.
\<close>

definition is_id_char :: "char \<Rightarrow> bool" where
  "is_id_char c \<longleftrightarrow>
     (let n = (of_char c :: nat) in
        (97 \<le> n \<and> n \<le> 122) \<or> (65 \<le> n \<and> n \<le> 90) \<or> (48 \<le> n \<and> n \<le> 57)
        \<or> c = CHR ''_'' \<or> c = CHR ''-'')"

fun re_search_id :: "string \<Rightarrow> string \<Rightarrow> string option" where
  "re_search_id lit [] = None"
| "re_search_id lit (c # cs) =
     (if startswith (c # cs) lit \<and> takeWhile is_id_char (drop (length lit) (c # cs)) \<noteq> []
      then Some (takeWhile is_id_char (drop (length lit) (c # cs)))
      else re_search_id lit cs)"

text \<open>The loop over the patterns: the first pattern that matches decides.\<close>

fun first_match :: "string list \<Rightarrow> string \<Rightarrow> string option" where
  "first_match [] url = None"
| "first_match (p # ps) url =
     (case re_search_id p url of Some g \<Rightarrow> Some g | None \<Rightarrow> first_match ps url)"

definition patterns :: "string list" where
  "patterns = [''/d/'', ''id='', ''/file/d/'']"

definition extract_gdrive_file_id :: "pyval \<Rightarrow> string option" where
  "extract_gdrive_file_id url =
     (case url of
        PyNone \<Rightarrow> None
      | PyStr u \<Rightarrow> if u = [] then None else first_match patterns u)"

definition is_gdrive_url :: "pyval \<Rightarrow> bool" where
  "is_gdrive_url url =
     (case url of
        PyNone \<Rightarrow> False
      | PyStr u \<Rightarrow>
          if u = [] then False
          else py_in ''drive.google.com'' u \<or> py_in ''googleusercontent.com'' u)"

text \<open>
  The reading of the specification, for comparison with \<open>is_gdrive_url\<close>: the host of an
  address is its authority component (what follows \<^verbatim>\<open>://\<close> up to the next \<^verbatim>\<open>/\<close>, \<^verbatim>\<open>?\<close> or
  \<^verbatim>\<open>#\<close>) without user information and port, and a host matches a domain when, read
  without regard to the case of its letters, it is the domain or a subdomain of it.
\<close>

fun after_scheme :: "string \<Rightarrow> string option" where
  "after_scheme [] = None"
| "after_scheme (c # cs) =
     (if startswith (c # cs) ''://'' then Some (drop 2 cs) else after_scheme cs)"

definition host_of_authority :: "string \<Rightarrow> string" where
  "host_of_authority a =
     takeWhile (\<lambda>c. c \<noteq> CHR '':'') (rev (takeWhile (\<lambda>c. c \<noteq> CHR ''@'') (rev a)))"

definition spec_url_host :: "string \<Rightarrow> string option" where
  "spec_url_host url =
     (case after_scheme url of
        None \<Rightarrow> None
      | Some rest \<Rightarrow>
          Some (host_of_authority
                  (takeWhile (\<lambda>c. c \<noteq> CHR ''/'' \<and> c \<noteq> CHR ''?'' \<and> c \<noteq> CHR ''#'') rest)))"




text \<open>
  The world outside the program: whether \<^verbatim>\<open>os.makedirs('images', exist_ok=True)\<close>
  succeeds, for which download addresses \<^verbatim>\<open>urlretrieve\<close> completes, and the log of the
  calls of \<^verbatim>\<open>urlretrieve\<close> made so far (address and target path, oldest first). Console
  output is not modelled.
\<close>

record world =
  can_makedirs :: bool
  retrievable :: "string \<Rightarrow> bool"
  retrieved :: "(string \<times> string) list"

text \<open>\<^verbatim>\<open>os.path.join('images', name)\<close> on a POSIX system.\<close>

definition images_path :: "string \<Rightarrow> string" where
  "images_path name = (if startswith name ''/'' then name else ''images/'' @ name)"

definition download_image_from_gdrive ::
    "pyval \<Rightarrow> string \<Rightarrow> world \<Rightarrow> (py_error + bool) \<times> world" where
  "download_image_from_gdrive gdrive_url local_filename w =
     (case extract_gdrive_file_id gdrive_url of
        None \<Rightarrow> (Inr False, w)
      | Some file_id \<Rightarrow>
          let download_url = ''https://drive.google.com/uc?export=download&id='' @ file_id in
          if \<not> can_makedirs w then (Inl OSError, w)
          else
            let filepath = images_path local_filename;
                w' = w\<lparr>retrieved := retrieved w @ [(download_url, filepath)]\<rparr>
            in if retrievable w download_url then (Inr True, w') else (Inr False, w'))"

definition process_image_url ::
    "pyval \<Rightarrow> string \<Rightarrow> world \<Rightarrow> (py_error + string) \<times> world" where
  "process_image_url url default_filename w =
     (if \<not> truthy url then (Inr [], w)
      else if startswith (py_str url) ''images/'' then (Inr (py_str url), w)
      else if is_gdrive_url url then
        (case download_image_from_gdrive url default_filename w of
           (Inl e, w') \<Rightarrow> (Inl e, w')
         | (Inr ok, w') \<Rightarrow> if ok then (Inr (''images/'' @ default_filename), w') else (Inr [], w'))
      else (Inr (py_str url), w))"

section \<open>The flat section parsers\<close>

text \<open>
  The loop body shared, word for word, by \<^verbatim>\<open>parse_general_info\<close>, \<^verbatim>\<open>parse_hero\<close> and
  \<^verbatim>\<open>parse_contact\<close>:
  \<^verbatim>\<open>if row.get('field') and row.get('value'): info[row['field']] = row['value']\<close>.
  A truthy cell is a non-empty string, so the keys of the dictionary are strings.
\<close>

definition store_field :: "(string \<rightharpoonup> pyval) \<Rightarrow> row \<Rightarrow> (string \<rightharpoonup> pyval)" where
  "store_field info r =
     (if truthy (py_get r ''field'' PyNone) \<and> truthy (py_get r ''value'' PyNone)
      then info(py_str (py_get r ''field'' PyNone) \<mapsto> py_get r ''value'' PyNone)
      else info)"

definition parse_general_info :: "row list \<Rightarrow> (string \<rightharpoonup> pyval)" where
  "parse_general_info data = foldl store_field Map.empty data"

definition parse_hero :: "row list \<Rightarrow> (string \<rightharpoonup> pyval)" where
  "parse_hero data = foldl store_field Map.empty data"

definition parse_contact :: "row list \<Rightarrow> (string \<rightharpoonup> pyval)" where
  "parse_contact data = foldl store_field Map.empty data"

text \<open>A row contributes when both of its cells are truthy.\<close>

definition contributes :: "row \<Rightarrow> bool" where
  "contributes r \<longleftrightarrow> truthy (py_get r ''field'' PyNone) \<and> truthy (py_get r ''value'' PyNone)"

text \<open>The last contributing row that names the field \<open>k\<close>, if there is one.\<close>

definition last_write :: "row list \<Rightarrow> string \<Rightarrow> pyval option" where
  "last_write data k =
     (case List.find (\<lambda>r. contributes r \<and> py_get r ''field'' PyNone = PyStr k) (rev data) of
        None \<Rightarrow> None
      | Some r \<Rightarrow> Some (py_get r ''value'' PyNone))"

section \<open>The about section\<close>

record stat =
  stat_key :: string
  stat_number :: pyval
  stat_label :: pyval

record about =
  about_title :: pyval
  about_paragraphs :: "pyval list"
  about_stats :: "stat list"

text \<open>
  \<^verbatim>\<open>next((s for s in about['stats'] if s['key'] == stat_key), None)\<close> is the first stat
  with the key; the assignment to \<^verbatim>\<open>stat['number']\<close> or \<^verbatim>\<open>stat['label']\<close> then changes
  that element of the list in place.
\<close>

fun update_first :: "string \<Rightarrow> (stat \<Rightarrow> stat) \<Rightarrow> stat list \<Rightarrow> stat list" where
  "update_first k f [] = []"
| "update_first k f (s # ss) = (if stat_key s = k then f s # ss else s # update_first k f ss)"

definition put_number :: "string \<Rightarrow> pyval \<Rightarrow> stat list \<Rightarrow> stat list" where
  "put_number k v stats =
     (case List.find (\<lambda>s. stat_key s = k) stats of
        None \<Rightarrow> stats @ [\<lparr>stat_key = k, stat_number = v, stat_label = PyStr []\<rparr>]
      | Some _ \<Rightarrow> update_first k (\<lambda>s. s\<lparr>stat_number := v\<rparr>) stats)"

definition put_label :: "string \<Rightarrow> pyval \<Rightarrow> stat list \<Rightarrow> stat list" where
  "put_label k v stats =
     (case List.find (\<lambda>s. stat_key s = k) stats of
        None \<Rightarrow> stats @ [\<lparr>stat_key = k, stat_number = PyStr [], stat_label = v\<rparr>]
      | Some _ \<Rightarrow> update_first k (\<lambda>s. s\<lparr>stat_label := v\<rparr>) stats)"

text \<open>
  One round of the loop of \<^verbatim>\<open>parse_about\<close>. A \<^verbatim>\<open>field\<close> cell that is \<^verbatim>\<open>None\<close> is
  not equal to \<^verbatim>\<open>'title'\<close>, and \<^verbatim>\<open>field.startswith\<close> then raises \<^verbatim>\<open>AttributeError\<close>.
\<close>

definition about_step :: "about \<Rightarrow> row \<Rightarrow> py_error + about" where
  "about_step a r =
     (let field = py_get r ''field'' (PyStr []);
          val = py_get r ''value'' (PyStr [])
      in if field = PyStr ''title'' then Inr (a\<lparr>about_title := val\<rparr>)
         else (case field of
                 PyNone \<Rightarrow> Inl AttributeError
               | PyStr f \<Rightarrow>
                   if startswith f ''paragraph''
                   then Inr (a\<lparr>about_paragraphs := about_paragraphs a @ [val]\<rparr>)
                   else if endswith f ''_number''
                   then Inr (a\<lparr>about_stats :=
                               put_number (py_replace f ''_number'' []) val (about_stats a)\<rparr>)
                   else if endswith f ''_label''
                   then Inr (a\<lparr>about_stats :=
                               put_label (py_replace f ''_label'' []) val (about_stats a)\<rparr>)
                   else Inr a))"

fun about_loop :: "about \<Rightarrow> row list \<Rightarrow> py_error + about" where
  "about_loop a [] = Inr a"
| "about_loop a (r # rs) =
     (case about_step a r of Inl e \<Rightarrow> Inl e | Inr a' \<Rightarrow> about_loop a' rs)"

definition parse_about :: "row list \<Rightarrow> py_error + about" where
  "parse_about data =
     about_loop \<lparr>about_title = PyStr [], about_paragraphs = [], about_stats = []\<rparr> data"

text \<open>
  Notions for stating what \<open>parse_about\<close> computes. A paragraph row is a row whose field
  starts with \<^verbatim>\<open>paragraph\<close>. The stat entry of a row is what the row contributes to the
  stats under the dispatch of \<open>about_step\<close>: the stat key, whether the row names the number
  (or else the label), and the value.
\<close>

definition is_paragraph_row :: "row \<Rightarrow> bool" where
  "is_paragraph_row r =
     (case py_get r ''field'' (PyStr []) of
        PyNone \<Rightarrow> False
      | PyStr f \<Rightarrow> startswith f ''paragraph'')"

definition stat_entry :: "row \<Rightarrow> (string \<times> bool \<times> pyval) option" where
  "stat_entry r =
     (case py_get r ''field'' (PyStr []) of
        PyNone \<Rightarrow> None
      | PyStr f \<Rightarrow>
          if f = ''title'' \<or> startswith f ''paragraph'' then None
          else if endswith f ''_number''
          then Some (py_replace f ''_number'' [], True, py_get r ''value'' (PyStr []))
          else if endswith f ''_label''
          then Some (py_replace f ''_label'' [], False, py_get r ''value'' (PyStr []))
          else None)"

definition stat_entries :: "row list \<Rightarrow> (string \<times> bool \<times> pyval) list" where
  "stat_entries data = List.map_filter stat_entry data"

text \<open>The distinct elements of a list in the order of their first occurrence.\<close>

definition first_seen :: "'a list \<Rightarrow> 'a list" where
  "first_seen xs = rev (remdups (rev xs))"

text \<open>
  The value of the last entry for the key \<open>k\<close> on the number side (\<open>b\<close> true) or the label
  side (\<open>b\<close> false), and the empty string when there is none.
\<close>

definition last_value :: "bool \<Rightarrow> string \<Rightarrow> (string \<times> bool \<times> pyval) list \<Rightarrow> pyval" where
  "last_value b k es =
     (case List.find (\<lambda>e. fst e = k \<and> fst (snd e) = b) (rev es) of
        None \<Rightarrow> PyStr []
      | Some e \<Rightarrow> snd (snd e))"

text \<open>What one stat entry does to the stats, and the stats that a list of entries merges into.\<close>

definition apply_entry :: "string \<times> bool \<times> pyval \<Rightarrow> stat list \<Rightarrow> stat list" where
  "apply_entry e stats =
     (if fst (snd e) then put_number (fst e) (snd (snd e)) stats
      else put_label (fst e) (snd (snd e)) stats)"

definition merged_stats :: "(string \<times> bool \<times> pyval) list \<Rightarrow> stat list" where
  "merged_stats es =
     map (\<lambda>k. \<lparr>stat_key = k, stat_number = last_value True k es, stat_label = last_value False k es\<rparr>)
       (first_seen (map fst es))"

section \<open>Core values, services and service details\<close>

record core_value =
  cv_icon :: pyval
  cv_title :: pyval
  cv_description :: pyval
  cv_gradient :: pyval

text \<open>
  The default icon of the source is a pictograph outside the modelled character range; it
  is the parameter \<open>icon0\<close>.
\<close>

definition parse_core_values :: "string \<Rightarrow> row list \<Rightarrow> core_value list" where
  "parse_core_values icon0 data =
     foldl (\<lambda>values r.
        if truthy (py_get r ''icon'' PyNone) \<and> truthy (py_get r ''title'' PyNone)
        then values @ [\<lparr>cv_icon = py_get r ''icon'' (PyStr icon0),
                        cv_title = py_get r ''title'' (PyStr []),
                        cv_description = py_get r ''description'' (PyStr []),
                        cv_gradient = py_get r ''gradient'' (PyStr ''from-blue-500 to-cyan-500'')\<rparr>]
        else values) [] data"

record service =
  svc_name :: pyval
  svc_link_id :: pyval
  svc_gradient :: pyval

definition parse_services :: "row list \<Rightarrow> service list" where
  "parse_services data =
     foldl (\<lambda>services r.
        if truthy (py_get r ''name'' PyNone)
        then services @ [\<lparr>svc_name = py_get r ''name'' (PyStr []),
                            svc_link_id = py_get r ''link_id'' (PyStr []),
                            svc_gradient = py_get r ''gradient'' (PyStr ''from-blue-500 to-cyan-500'')\<rparr>]
        else services) [] data"

record service_detail =
  sd_service_id :: pyval
  sd_title :: pyval
  sd_intro :: pyval
  sd_bullets_title :: pyval
  sd_bullets :: "string list"
  sd_closing :: pyval
  sd_bg_image :: pyval
  sd_image_position :: pyval

text \<open>The two assignments to \<^verbatim>\<open>bullets\<close>: the split, then the trimmed non-empty segments.\<close>

definition bullets_of :: "row \<Rightarrow> string list" where
  "bullets_of r =
     (let bullets = (if truthy (py_get r ''key_services'' PyNone)
                     then py_split (py_str (py_get r ''key_services'' (PyStr []))) ''|''
                     else [])
      in map py_strip (filter (\<lambda>b. py_strip b \<noteq> []) bullets))"

definition detail_of :: "row \<Rightarrow> service_detail" where
  "detail_of r =
     \<lparr>sd_service_id = py_get r ''service_id'' (PyStr []),
      sd_title = py_get r ''title'' (PyStr []),
      sd_intro = py_get r ''intro'' (PyStr []),
      sd_bullets_title = py_get r ''bullets_title'' (PyStr ''Key Services Include:''),
      sd_bullets = bullets_of r,
      sd_closing = py_get r ''closing'' (PyStr []),
      sd_bg_image = py_get r ''bg_image'' (PyStr []),
      sd_image_position = py_get r ''image_position'' (PyStr ''right'')\<rparr>"

definition parse_service_details :: "row list \<Rightarrow> service_detail list" where
  "parse_service_details data =
     foldl (\<lambda>details r.
        if truthy (py_get r ''service_id'' PyNone) then details @ [detail_of r] else details)
       [] data"

section \<open>Rendering a service detail section\<close>

text \<open>The list comprehension \<^verbatim>\<open>[p.strip() for p in text.split(sep) if p.strip()]\<close>.\<close>

definition stripped_parts :: "string \<Rightarrow> string \<Rightarrow> string list" where
  "stripped_parts text sep = map py_strip (filter (\<lambda>p. py_strip p \<noteq> []) (py_split text sep))"

text \<open>The value of the variable \<^verbatim>\<open>paragraphs\<close> of \<^verbatim>\<open>text_to_paragraphs\<close> for a non-empty text.\<close>

definition paragraphs_of :: "string \<Rightarrow> string list" where
  "paragraphs_of text =
     (if py_in ''||'' text then stripped_parts text ''||''
      else
        let paragraphs = stripped_parts text (newline @ newline) in
        if length paragraphs \<le> 1 then
          let paragraphs = stripped_parts text newline in
          if length paragraphs \<le> 1 then [py_strip text] else paragraphs
        else paragraphs)"

definition paragraph_block :: \<open>string \<Rightarrow> string \<Rightarrow> string\<close> where
  \<open>paragraph_block css_class para =
     ''                    <p class="'' @ css_class @ ''">'' @ newline @
     ''                        '' @ para @ newline @
     ''                    </p>''\<close>

definition default_css_class :: string where
  "default_css_class = ''text-lg text-gray-200 mb-6''"

definition text_to_paragraphs :: "pyval \<Rightarrow> string \<Rightarrow> string" where
  "text_to_paragraphs text css_class =
     (if \<not> truthy text then []
      else py_join newline
             (map (paragraph_block css_class)
                (filter (\<lambda>para. para \<noteq> []) (paragraphs_of (py_str text)))))"

text \<open>The paragraphs that \<open>text_to_paragraphs\<close> renders, one block each.\<close>

definition rendered_paragraphs :: "pyval \<Rightarrow> string list" where
  "rendered_paragraphs text =
     (if \<not> truthy text then []
      else filter (\<lambda>para. para \<noteq> []) (paragraphs_of (py_str text)))"

text \<open>
  The fallback chain in the words of the specification, for comparison with
  \<open>rendered_paragraphs\<close>: split on the double pipe if it is present, else on blank-line
  breaks if more than one segment results, else on single line breaks if more than one
  segment results, else the whole field is one paragraph.
\<close>

definition spec_paragraphs :: "string \<Rightarrow> string list" where
  "spec_paragraphs text =
     (if py_in ''||'' text then py_split text ''||''
      else if 1 < length (py_split text (newline @ newline))
      then py_split text (newline @ newline)
      else if 1 < length (py_split text newline) then py_split text newline
      else [text])"

text \<open>The pieces of \<^verbatim>\<open>generate_service_detail_section\<close> that depend on the image position.\<close>

definition mask_gradient :: "service_detail \<Rightarrow> string" where
  "mask_gradient detail =
     (if sd_image_position detail = PyStr ''left''
      then ''linear-gradient(to right, rgba(0,0,0,1) 0%, rgba(0,0,0,0.8) 50%, rgba(0,0,0,0) 100%)''
      else ''linear-gradient(to left, rgba(0,0,0,1) 0%, rgba(0,0,0,0.8) 50%, rgba(0,0,0,0) 100%)'')"

definition grid_order :: \<open>service_detail \<Rightarrow> string\<close> where
  \<open>grid_order detail =
     (if sd_image_position detail = PyStr ''left''
      then ''                <!-- Empty space for image on the left -->'' @ newline @
           ''                <div class="hidden md:block"></div>'' @ newline @
           ''                <!-- Text content on the right -->''
      else ''                <!-- Text content on the left -->'')\<close>

definition right_spacer :: \<open>service_detail \<Rightarrow> string\<close> where
  \<open>right_spacer detail =
     (if sd_image_position detail = PyStr ''right''
      then newline @ ''                <!-- Empty space for image on the right -->'' @ newline @
           ''                <div class="hidden md:block"></div>''
      else [])\<close>

definition bullets_html :: "service_detail \<Rightarrow> string" where
  "bullets_html detail =
     py_join newline
       (map (\<lambda>bullet. ''                        <li>'' @ bullet @ ''</li>'') (sd_bullets detail))"

definition generate_service_detail_section :: \<open>service_detail \<Rightarrow> nat \<Rightarrow> string\<close> where
  \<open>generate_service_detail_section detail index =
     (let intro_html = text_to_paragraphs (sd_intro detail) default_css_class;
          closing_html = text_to_paragraphs (sd_closing detail) default_css_class;
          section =
       newline @
       ''    <!-- '' @ py_str (sd_title detail) @ '' Detail Section -->'' @ newline @
       ''    <section id="'' @ py_str (sd_service_id detail) @
       ''" class="min-h-screen flex items-center py-20 bg-black relative overflow-hidden">'' @ newline @
       ''        <!-- Background image -->'' @ newline @
       ''        <div class="absolute inset-0 bg-cover bg-center" style="background-image: url('' @ [CHR 0x27] @
       py_str (sd_bg_image detail) @
       [CHR 0x27] @ ''); -webkit-mask-image: '' @ mask_gradient detail @
       ''; mask-image: '' @ mask_gradient detail @
       '';"></div>'' @ newline @
       newline @
       ''        <div class="container mx-auto px-6 relative z-10">'' @ newline @
       ''            <div class="grid md:grid-cols-2 gap-12 items-center">'' @ newline @
       grid_order detail @
       newline @
       ''                <div class="text-white">'' @ newline @
       ''                    <h2 class="text-4xl md:text-5xl font-bold mb-8">'' @
       py_str (sd_title detail) @
       ''</h2>'' @ newline @
       intro_html @
       newline @
       ''                    <h3 class="text-2xl font-bold mb-4">'' @
       py_str (sd_bullets_title detail) @
       ''</h3>'' @ newline @
       ''                    <ul class="list-disc list-inside space-y-2 text-gray-200 mb-6">'' @ newline @
       bullets_html detail @
       newline @
       ''                    </ul>'' @ newline @
       closing_html @
       newline @
       ''                </div>''
      in section @ right_spacer detail @
         newline @ ''            </div>'' @ newline @ ''        </div>'' @ newline @ ''    </section>'')\<close>

section \<open>Properties of the flat parsers\<close>

lemma truthy_py_str: "truthy v \<Longrightarrow> PyStr (py_str v) = v"
  by (cases v) simp_all

lemma store_field_lookup:
  "store_field m r k =
     (if contributes r \<and> py_get r ''field'' PyNone = PyStr k
      then Some (py_get r ''value'' PyNone) else m k)"
  by (auto simp: store_field_def contributes_def dest: truthy_py_str)

lemma last_write_snoc:
  "last_write (data @ [r]) k =
     (if contributes r \<and> py_get r ''field'' PyNone = PyStr k
      then Some (py_get r ''value'' PyNone) else last_write data k)"
  by (simp add: last_write_def)

lemma foldl_store_field_lookup:
  "foldl store_field m data k =
     (case last_write data k of None \<Rightarrow> m k | Some v \<Rightarrow> Some v)"
proof (induction data rule: rev_induct)
  case Nil
  show ?case by (simp add: last_write_def)
next
  case (snoc r data)
  have step: "store_field M r k =
      (if contributes r \<and> py_get r ''field'' PyNone = PyStr k
       then Some (py_get r ''value'' PyNone) else M k)" for M
    by (rule store_field_lookup)
  have snoc_eq: "last_write (data @ [r]) k =
      (if contributes r \<and> py_get r ''field'' PyNone = PyStr k
       then Some (py_get r ''value'' PyNone) else last_write data k)"
    by (rule last_write_snoc)
  show ?case
    using snoc.IH by (simp add: step snoc_eq)
qed

lemma flat_parse_lookup: "foldl store_field Map.empty data k = last_write data k"
  by (simp add: foldl_store_field_lookup split: option.splits)

text \<open>
  Claim C9. \<^verbatim>\<open>parse_general_info\<close>, \<^verbatim>\<open>parse_hero\<close> and \<^verbatim>\<open>parse_contact\<close> are the same
  fold over the rows. The entry of a field \<open>k\<close> in the result is the value of the last row
  whose \<^verbatim>\<open>field\<close> is \<open>k\<close> and whose \<^verbatim>\<open>field\<close> and \<^verbatim>\<open>value\<close> are both non-empty, and
  there is no entry when there is no such row (rows with an empty or missing cell
  contribute nothing; a later row overwrites an earlier one). Appending a row stores its
  value over the map parsed so far, or leaves the map alone. The parsers are functions of
  their input, so parsing the same rows again gives the same map.
\<close>

theorem flat_parsers_last_write_wins:
  "parse_general_info data k = last_write data k
   \<and> parse_hero data k = last_write data k
   \<and> parse_contact data k = last_write data k
   \<and> parse_general_info (data @ [r]) =
       (if contributes r
        then (parse_general_info data)(py_str (py_get r ''field'' PyNone) \<mapsto> py_get r ''value'' PyNone)
        else parse_general_info data)
   \<and> parse_hero = parse_general_info \<and> parse_contact = parse_general_info"
proof -
  have "parse_general_info (data @ [r]) = store_field (parse_general_info data) r"
    by (simp add: parse_general_info_def)
  moreover have "store_field m r =
      (if contributes r
       then m(py_str (py_get r ''field'' PyNone) \<mapsto> py_get r ''value'' PyNone) else m)" for m
    by (simp add: store_field_def contributes_def)
  moreover have "parse_hero = parse_general_info" "parse_contact = parse_general_info"
    by (auto simp: parse_hero_def parse_contact_def parse_general_info_def fun_eq_iff)
  ultimately show ?thesis
    by (simp add: parse_general_info_def flat_parse_lookup)
qed

theorem flat_parsers_last_write_wins_witness:
  "parse_general_info
     [[''field'' \<mapsto> PyStr ''site_title'', ''value'' \<mapsto> PyStr ''Old''],
      [''field'' \<mapsto> PyStr ''site_title'', ''value'' \<mapsto> PyStr []],
      [''field'' \<mapsto> PyStr ''site_title'', ''value'' \<mapsto> PyStr ''New''],
      [''field'' \<mapsto> PyStr ''site_title'', ''value'' \<mapsto> PyNone],
      [''value'' \<mapsto> PyStr ''Lost'']] ''site_title'' = Some (PyStr ''New'')"
  using flat_parsers_last_write_wins
    [of "[[''field'' \<mapsto> PyStr ''site_title'', ''value'' \<mapsto> PyStr ''Old''],
      [''field'' \<mapsto> PyStr ''site_title'', ''value'' \<mapsto> PyStr []],
      [''field'' \<mapsto> PyStr ''site_title'', ''value'' \<mapsto> PyStr ''New''],
      [''field'' \<mapsto> PyStr ''site_title'', ''value'' \<mapsto> PyNone],
      [''value'' \<mapsto> PyStr ''Lost'']]" "''site_title''"]
  by (simp add: last_write_def contributes_def py_get_def)

section \<open>Properties of the identifier extraction\<close>

lemma startswith_append: "startswith s p \<longleftrightarrow> (\<exists>t. s = p @ t)"
  unfolding startswith_def
  by (metis append_eq_conv_conj append_take_drop_id)

lemma re_search_id_None:
  "re_search_id lit s = None \<longleftrightarrow>
     \<not> (\<exists>pre c post. s = pre @ lit @ c # post \<and> is_id_char c)"
proof (induction s)
  case Nil
  show ?case by simp
next
  case (Cons a s)
  have here: "(startswith (a # s) lit \<and> takeWhile is_id_char (drop (length lit) (a # s)) \<noteq> [])
      \<longleftrightarrow> (\<exists>c post. a # s = lit @ c # post \<and> is_id_char c)"
  proof
    assume h: "startswith (a # s) lit \<and> takeWhile is_id_char (drop (length lit) (a # s)) \<noteq> []"
    then obtain t where t: "a # s = lit @ t" by (auto simp: startswith_append)
    with h have "takeWhile is_id_char t \<noteq> []" by simp
    then obtain c post where "t = c # post" "is_id_char c"
      by (cases t) (auto split: if_splits)
    with t show "\<exists>c post. a # s = lit @ c # post \<and> is_id_char c" by auto
  next
    assume "\<exists>c post. a # s = lit @ c # post \<and> is_id_char c"
    then obtain c post where e: "a # s = lit @ c # post" "is_id_char c" by auto
    then show "startswith (a # s) lit \<and> takeWhile is_id_char (drop (length lit) (a # s)) \<noteq> []"
      by (auto simp: startswith_append)
  qed
  have split: "(\<exists>pre c post. a # s = pre @ lit @ c # post \<and> is_id_char c) \<longleftrightarrow>
      (\<exists>c post. a # s = lit @ c # post \<and> is_id_char c) \<or>
      (\<exists>pre c post. s = pre @ lit @ c # post \<and> is_id_char c)"
  proof
    assume "\<exists>pre c post. a # s = pre @ lit @ c # post \<and> is_id_char c"
    then obtain pre c post where e: "a # s = pre @ lit @ c # post" "is_id_char c" by auto
    show "(\<exists>c post. a # s = lit @ c # post \<and> is_id_char c) \<or>
      (\<exists>pre c post. s = pre @ lit @ c # post \<and> is_id_char c)"
    proof (cases pre)
      case Nil
      with e show ?thesis by auto
    next
      case (Cons b pre')
      with e have "s = pre' @ lit @ c # post" by simp
      with e(2) show ?thesis by blast
    qed
  next
    assume "(\<exists>c post. a # s = lit @ c # post \<and> is_id_char c) \<or>
      (\<exists>pre c post. s = pre @ lit @ c # post \<and> is_id_char c)"
    then show "\<exists>pre c post. a # s = pre @ lit @ c # post \<and> is_id_char c"
    proof
      assume "\<exists>c post. a # s = lit @ c # post \<and> is_id_char c"
      then show ?thesis by (metis append_Nil)
    next
      assume "\<exists>pre c post. s = pre @ lit @ c # post \<and> is_id_char c"
      then obtain pre c post where "s = pre @ lit @ c # post" "is_id_char c" by auto
      then have "a # s = (a # pre) @ lit @ c # post" by simp
      with \<open>is_id_char c\<close> show ?thesis by blast
    qed
  qed
  show ?case
    using Cons.IH here split by (simp del: startswith_def)
qed

lemma re_search_id_Some:
  "re_search_id lit s = Some g \<Longrightarrow>
     \<exists>pre post. s = pre @ lit @ g @ post \<and> g \<noteq> [] \<and> list_all is_id_char g
        \<and> (post = [] \<or> \<not> is_id_char (hd post))"
proof (induction s)
  case Nil
  then show ?case by simp
next
  case (Cons a s)
  show ?case
  proof (cases "startswith (a # s) lit \<and> takeWhile is_id_char (drop (length lit) (a # s)) \<noteq> []")
    case True
    from True Cons.prems have g0: "g = takeWhile is_id_char (drop (length lit) (a # s))"
      by (simp del: startswith_def)
    from True obtain t where t: "a # s = lit @ t" by (auto simp: startswith_append)
    from True g0 t have g: "g = takeWhile is_id_char t" "g \<noteq> []" by auto
    have "t = g @ dropWhile is_id_char t" by (simp add: g)
    moreover have "list_all is_id_char g"
      by (simp add: g list_all_iff) (meson set_takeWhileD)
    moreover have "dropWhile is_id_char t = [] \<or> \<not> is_id_char (hd (dropWhile is_id_char t))"
      by (metis hd_dropWhile)
    ultimately show ?thesis using t g(2) by (metis append_Nil)
  next
    case False
    with Cons.prems have "re_search_id lit s = Some g" by (simp del: startswith_def)
    from Cons.IH[OF this] obtain pre post where
      "s = pre @ lit @ g @ post" "g \<noteq> []" "list_all is_id_char g"
      "post = [] \<or> \<not> is_id_char (hd post)" by blast
    then have "a # s = (a # pre) @ lit @ g @ post" by simp
    with \<open>g \<noteq> []\<close> \<open>list_all is_id_char g\<close> \<open>post = [] \<or> \<not> is_id_char (hd post)\<close>
    show ?thesis by blast
  qed
qed

lemma extract_chain:
  "extract_gdrive_file_id (PyStr url) =
     (case re_search_id ''/d/'' url of
        Some g \<Rightarrow> Some g
      | None \<Rightarrow> (case re_search_id ''id='' url of
                   Some g \<Rightarrow> Some g
                 | None \<Rightarrow> re_search_id ''/file/d/'' url))"
  by (cases url) (simp_all add: extract_gdrive_file_id_def patterns_def split: option.splits)

lemma first_match_None:
  "first_match ps url = None \<longleftrightarrow> (\<forall>lit \<in> set ps. re_search_id lit url = None)"
  by (induction ps) (auto split: option.splits)

lemma first_match_Some:
  "first_match ps url = Some g \<Longrightarrow> \<exists>lit \<in> set ps. re_search_id lit url = Some g"
  by (induction ps) (auto split: option.splits)

text \<open>
  Claim C7. \<^verbatim>\<open>extract_gdrive_file_id\<close> tries the pattern \<^verbatim>\<open>/d/<id>\<close>, then \<^verbatim>\<open>id=<id>\<close>,
  then \<^verbatim>\<open>/file/d/<id>\<close>, and returns the group of the first pattern that matches. It
  returns nothing exactly when none of the three literals occurs in the address followed
  by an identifier character. A returned identifier is a non-empty run of identifier
  characters that follows one of the literals in the address and is not continued by a
  further identifier character. The address \<^verbatim>\<open>https://drive.google.com/file/d/ABC123/view\<close>
  gives \<^verbatim>\<open>ABC123\<close>, and \<^verbatim>\<open>https://example.com/logo.png\<close> gives nothing.
\<close>

theorem extract_gdrive_file_id_first_match:
  "extract_gdrive_file_id (PyStr url) =
     (case re_search_id ''/d/'' url of
        Some g \<Rightarrow> Some g
      | None \<Rightarrow> (case re_search_id ''id='' url of
                   Some g \<Rightarrow> Some g
                 | None \<Rightarrow> re_search_id ''/file/d/'' url))
   \<and> (extract_gdrive_file_id (PyStr url) = None \<longleftrightarrow>
        \<not> (\<exists>lit \<in> set patterns. \<exists>pre c post. url = pre @ lit @ c # post \<and> is_id_char c))
   \<and> (extract_gdrive_file_id (PyStr url) = Some g \<longrightarrow>
        (\<exists>lit \<in> set patterns. \<exists>pre post. url = pre @ lit @ g @ post \<and> g \<noteq> []
            \<and> list_all is_id_char g \<and> (post = [] \<or> \<not> is_id_char (hd post))))
   \<and> extract_gdrive_file_id PyNone = None
   \<and> extract_gdrive_file_id (PyStr ''https://drive.google.com/file/d/ABC123/view'')
       = Some ''ABC123''
   \<and> extract_gdrive_file_id (PyStr ''https://example.com/logo.png'') = None"
proof -
  have unfolded: "extract_gdrive_file_id (PyStr url) = first_match patterns url"
    by (cases url) (simp_all add: extract_gdrive_file_id_def patterns_def)
  have none: "extract_gdrive_file_id (PyStr url) = None \<longleftrightarrow>
        \<not> (\<exists>lit \<in> set patterns. \<exists>pre c post. url = pre @ lit @ c # post \<and> is_id_char c)"
    unfolding unfolded first_match_None by (simp only: re_search_id_None) blast
  have some: "extract_gdrive_file_id (PyStr url) = Some g \<longrightarrow>
        (\<exists>lit \<in> set patterns. \<exists>pre post. url = pre @ lit @ g @ post \<and> g \<noteq> []
            \<and> list_all is_id_char g \<and> (post = [] \<or> \<not> is_id_char (hd post)))"
  proof (intro impI)
    assume "extract_gdrive_file_id (PyStr url) = Some g"
    then have "first_match patterns url = Some g" by (simp only: unfolded)
    then obtain lit where lit: "lit \<in> set patterns" "re_search_id lit url = Some g"
      by (rule first_match_Some [THEN bexE])
    from re_search_id_Some [OF lit(2)] obtain pre post where
      "url = pre @ lit @ g @ post \<and> g \<noteq> [] \<and> list_all is_id_char g
         \<and> (post = [] \<or> \<not> is_id_char (hd post))"
      by (elim exE)
    then have "\<exists>pre post. url = pre @ lit @ g @ post \<and> g \<noteq> [] \<and> list_all is_id_char g
         \<and> (post = [] \<or> \<not> is_id_char (hd post))"
      by (intro exI)
    with lit(1) show "\<exists>lit \<in> set patterns. \<exists>pre post. url = pre @ lit @ g @ post \<and> g \<noteq> []
            \<and> list_all is_id_char g \<and> (post = [] \<or> \<not> is_id_char (hd post))"
      by (rule bexI [rotated])
  qed
  have ex1: "extract_gdrive_file_id (PyStr ''https://drive.google.com/file/d/ABC123/view'')
       = Some ''ABC123''"
    by (simp add: extract_gdrive_file_id_def patterns_def startswith_def is_id_char_def)
  have ex2: "extract_gdrive_file_id (PyStr ''https://example.com/logo.png'') = None"
    by (simp add: extract_gdrive_file_id_def patterns_def startswith_def is_id_char_def)
  have ex3: "extract_gdrive_file_id PyNone = None"
    by (simp add: extract_gdrive_file_id_def)
  show ?thesis
    by (intro conjI) (rule extract_chain none some ex1 ex2 ex3)+
qed

theorem extract_gdrive_file_id_first_match_witness:
  "extract_gdrive_file_id (PyStr ''https://drive.google.com/open?id=a1-B_2&usp=x'') = Some ''a1-B_2''
   \<and> (\<exists>lit \<in> set patterns. \<exists>pre post.
         ''https://drive.google.com/open?id=a1-B_2&usp=x'' = pre @ lit @ ''a1-B_2'' @ post)"
proof -
  have v: "extract_gdrive_file_id (PyStr ''https://drive.google.com/open?id=a1-B_2&usp=x'')
      = Some ''a1-B_2''"
    by (simp add: extract_gdrive_file_id_def patterns_def startswith_def is_id_char_def)
  from extract_gdrive_file_id_first_match
    [of "''https://drive.google.com/open?id=a1-B_2&usp=x''" "''a1-B_2''"]
  have "extract_gdrive_file_id (PyStr ''https://drive.google.com/open?id=a1-B_2&usp=x'') = Some ''a1-B_2'' \<longrightarrow>
        (\<exists>lit \<in> set patterns. \<exists>pre post. ''https://drive.google.com/open?id=a1-B_2&usp=x'' = pre @ lit @ ''a1-B_2'' @ post \<and> ''a1-B_2'' \<noteq> []
            \<and> list_all is_id_char ''a1-B_2'' \<and> (post = [] \<or> \<not> is_id_char (hd post)))"
    by (elim conjE)
  with v have "\<exists>lit \<in> set patterns. \<exists>pre post. ''https://drive.google.com/open?id=a1-B_2&usp=x'' = pre @ lit @ ''a1-B_2'' @ post \<and> ''a1-B_2'' \<noteq> []
            \<and> list_all is_id_char ''a1-B_2'' \<and> (post = [] \<or> \<not> is_id_char (hd post))"
    by (rule rev_mp)
  then obtain lit pre post where "lit \<in> set patterns"
     "''https://drive.google.com/open?id=a1-B_2&usp=x'' = pre @ lit @ ''a1-B_2'' @ post"
    by (elim bexE exE conjE)
  then have "\<exists>lit \<in> set patterns. \<exists>pre post.
         ''https://drive.google.com/open?id=a1-B_2&usp=x'' = pre @ lit @ ''a1-B_2'' @ post"
    by (intro bexI exI)
  with v show ?thesis by (rule conjI)
qed

section \<open>Properties of the external image test\<close>





section \<open>Properties of the image resolution\<close>

lemma startswith_nonempty: "startswith u p \<Longrightarrow> p \<noteq> [] \<Longrightarrow> u \<noteq> []"
  unfolding startswith_def by (cases u) simp_all

lemma process_image_url_external:
  assumes "u \<noteq> []" "\<not> startswith u ''images/''" "is_gdrive_url (PyStr u)"
  shows "process_image_url (PyStr u) fn w =
     (case download_image_from_gdrive (PyStr u) fn w of
        (Inl e, w') \<Rightarrow> (Inl e, w')
      | (Inr ok, w') \<Rightarrow> if ok then (Inr (''images/'' @ fn), w') else (Inr [], w'))"
  using assms unfolding process_image_url_def by simp

lemma download_no_identifier:
  "extract_gdrive_file_id url = None \<Longrightarrow> download_image_from_gdrive url fn w = (Inr False, w)"
  unfolding download_image_from_gdrive_def by simp

lemma download_with_identifier:
  assumes "extract_gdrive_file_id url = Some fid" "can_makedirs w"
  shows "download_image_from_gdrive url fn w =
     (Inr (retrievable w (''https://drive.google.com/uc?export=download&id='' @ fid)),
      w\<lparr>retrieved := retrieved w
          @ [(''https://drive.google.com/uc?export=download&id='' @ fid, images_path fn)]\<rparr>)"
  using assms unfolding download_image_from_gdrive_def by (simp add: Let_def)

lemma download_makedirs_error:
  assumes "extract_gdrive_file_id url = Some fid" "\<not> can_makedirs w"
  shows "download_image_from_gdrive url fn w = (Inl OSError, w)"
  using assms unfolding download_image_from_gdrive_def by (simp add: Let_def)

text \<open>
  What \<^verbatim>\<open>process_image_url\<close> computes, case by case: an empty input (or \<^verbatim>\<open>None\<close>) gives the empty string; an
  input that starts with \<^verbatim>\<open>images/\<close> is returned as it is and the world is left as it was
  (no retrieval is attempted); otherwise an address that \<^verbatim>\<open>is_gdrive_url\<close> accepts gives
  \<^verbatim>\<open>images/<default_filename>\<close> when \<^verbatim>\<open>download_image_from_gdrive\<close> reports success, which it
  does when the identifier is found and the retrieval completes, and the empty string when
  it reports failure, which it does when the identifier is missing or the retrieval
  raises; every other address is returned as it is. The retrieval is attempted only once
  the images folder has been made; an error of \<^verbatim>\<open>os.makedirs\<close> itself is not caught
  (lemma \<open>download_makedirs_error\<close>).
\<close>

lemma process_image_url_cases:
  "(\<not> truthy url \<longrightarrow> process_image_url url fn w = (Inr [], w))
   \<and> (startswith u ''images/'' \<longrightarrow> process_image_url (PyStr u) fn w = (Inr u, w))
   \<and> (u \<noteq> [] \<and> \<not> startswith u ''images/'' \<and> is_gdrive_url (PyStr u) \<longrightarrow>
        (download_image_from_gdrive (PyStr u) fn w = (Inr True, w') \<longrightarrow>
           process_image_url (PyStr u) fn w = (Inr (''images/'' @ fn), w'))
      \<and> (download_image_from_gdrive (PyStr u) fn w = (Inr False, w') \<longrightarrow>
           process_image_url (PyStr u) fn w = (Inr [], w'))
      \<and> (extract_gdrive_file_id (PyStr u) = None \<longrightarrow>
           process_image_url (PyStr u) fn w = (Inr [], w))
      \<and> (extract_gdrive_file_id (PyStr u) = Some fid \<and> can_makedirs w \<longrightarrow>
           process_image_url (PyStr u) fn w =
             (Inr (if retrievable w (''https://drive.google.com/uc?export=download&id='' @ fid)
                   then ''images/'' @ fn else []),
              w\<lparr>retrieved := retrieved w
                 @ [(''https://drive.google.com/uc?export=download&id='' @ fid, images_path fn)]\<rparr>)))
   \<and> (u \<noteq> [] \<and> \<not> startswith u ''images/'' \<and> \<not> is_gdrive_url (PyStr u) \<longrightarrow>
        process_image_url (PyStr u) fn w = (Inr u, w))"
proof -
  have empty: "\<not> truthy url \<longrightarrow> process_image_url url fn w = (Inr [], w)"
    unfolding process_image_url_def by simp
  have local: "startswith u ''images/'' \<longrightarrow> process_image_url (PyStr u) fn w = (Inr u, w)"
  proof
    assume s: "startswith u ''images/''"
    then have "u \<noteq> []" by (rule startswith_nonempty) simp
    with s show "process_image_url (PyStr u) fn w = (Inr u, w)"
      unfolding process_image_url_def by simp
  qed
  have other: "u \<noteq> [] \<and> \<not> startswith u ''images/'' \<and> \<not> is_gdrive_url (PyStr u) \<longrightarrow>
        process_image_url (PyStr u) fn w = (Inr u, w)"
    unfolding process_image_url_def by simp
  have ext: "u \<noteq> [] \<and> \<not> startswith u ''images/'' \<and> is_gdrive_url (PyStr u) \<longrightarrow>
        (download_image_from_gdrive (PyStr u) fn w = (Inr True, w') \<longrightarrow>
           process_image_url (PyStr u) fn w = (Inr (''images/'' @ fn), w'))
      \<and> (download_image_from_gdrive (PyStr u) fn w = (Inr False, w') \<longrightarrow>
           process_image_url (PyStr u) fn w = (Inr [], w'))
      \<and> (extract_gdrive_file_id (PyStr u) = None \<longrightarrow>
           process_image_url (PyStr u) fn w = (Inr [], w))
      \<and> (extract_gdrive_file_id (PyStr u) = Some fid \<and> can_makedirs w \<longrightarrow>
           process_image_url (PyStr u) fn w =
             (Inr (if retrievable w (''https://drive.google.com/uc?export=download&id='' @ fid)
                   then ''images/'' @ fn else []),
              w\<lparr>retrieved := retrieved w
                 @ [(''https://drive.google.com/uc?export=download&id='' @ fid, images_path fn)]\<rparr>))"
  proof
    assume "u \<noteq> [] \<and> \<not> startswith u ''images/'' \<and> is_gdrive_url (PyStr u)"
    then have p: "process_image_url (PyStr u) fn w =
       (case download_image_from_gdrive (PyStr u) fn w of
          (Inl e, w') \<Rightarrow> (Inl e, w')
        | (Inr ok, w') \<Rightarrow> if ok then (Inr (''images/'' @ fn), w') else (Inr [], w'))"
      by (intro process_image_url_external) simp_all
    have a: "download_image_from_gdrive (PyStr u) fn w = (Inr True, w') \<longrightarrow>
           process_image_url (PyStr u) fn w = (Inr (''images/'' @ fn), w')"
      unfolding p by simp
    have b: "download_image_from_gdrive (PyStr u) fn w = (Inr False, w') \<longrightarrow>
           process_image_url (PyStr u) fn w = (Inr [], w')"
      unfolding p by simp
    have c: "extract_gdrive_file_id (PyStr u) = None \<longrightarrow>
           process_image_url (PyStr u) fn w = (Inr [], w)"
      unfolding p by (simp add: download_no_identifier)
    have d: "extract_gdrive_file_id (PyStr u) = Some fid \<and> can_makedirs w \<longrightarrow>
           process_image_url (PyStr u) fn w =
             (Inr (if retrievable w (''https://drive.google.com/uc?export=download&id='' @ fid)
                   then ''images/'' @ fn else []),
              w\<lparr>retrieved := retrieved w
                 @ [(''https://drive.google.com/uc?export=download&id='' @ fid, images_path fn)]\<rparr>)"
      unfolding p by (simp add: download_with_identifier)
    from a b c d show "(download_image_from_gdrive (PyStr u) fn w = (Inr True, w') \<longrightarrow>
           process_image_url (PyStr u) fn w = (Inr (''images/'' @ fn), w'))
      \<and> (download_image_from_gdrive (PyStr u) fn w = (Inr False, w') \<longrightarrow>
           process_image_url (PyStr u) fn w = (Inr [], w'))
      \<and> (extract_gdrive_file_id (PyStr u) = None \<longrightarrow>
           process_image_url (PyStr u) fn w = (Inr [], w))
      \<and> (extract_gdrive_file_id (PyStr u) = Some fid \<and> can_makedirs w \<longrightarrow>
           process_image_url (PyStr u) fn w =
             (Inr (if retrievable w (''https://drive.google.com/uc?export=download&id='' @ fid)
                   then ''images/'' @ fn else []),
              w\<lparr>retrieved := retrieved w
                 @ [(''https://drive.google.com/uc?export=download&id='' @ fid, images_path fn)]\<rparr>))"
      by (intro conjI)
  qed
  from empty local ext other show ?thesis by (intro conjI)
qed


lemma process_image_url_examples:
  "process_image_url (PyStr ''https://drive.google.com/file/d/ABC123/view'') ''logo.png''
     \<lparr>can_makedirs = True, retrievable = (\<lambda>a. True), retrieved = []\<rparr>
   = (Inr ''images/logo.png'',
      \<lparr>can_makedirs = True, retrievable = (\<lambda>a. True),
       retrieved = [(''https://drive.google.com/uc?export=download&id=ABC123'', ''images/logo.png'')]\<rparr>)
   \<and> process_image_url (PyStr ''images/hero.jpg'') ''logo.png''
     \<lparr>can_makedirs = False, retrievable = (\<lambda>a. False), retrieved = []\<rparr>
   = (Inr ''images/hero.jpg'', \<lparr>can_makedirs = False, retrievable = (\<lambda>a. False), retrieved = []\<rparr>)
   \<and> process_image_url (PyStr ''https://example.com/logo.png'') ''logo.png''
     \<lparr>can_makedirs = False, retrievable = (\<lambda>a. False), retrieved = []\<rparr>
   = (Inr ''https://example.com/logo.png'',
      \<lparr>can_makedirs = False, retrievable = (\<lambda>a. False), retrieved = []\<rparr>)
   \<and> process_image_url (PyStr []) ''logo.png''
     \<lparr>can_makedirs = False, retrievable = (\<lambda>a. False), retrieved = []\<rparr>
   = (Inr [], \<lparr>can_makedirs = False, retrievable = (\<lambda>a. False), retrieved = []\<rparr>)
   \<and> process_image_url (PyStr ''https://drive.google.com/file/d/ABC123/view'') ''logo.png''
     \<lparr>can_makedirs = True, retrievable = (\<lambda>a. False), retrieved = []\<rparr>
   = (Inr [],
      \<lparr>can_makedirs = True, retrievable = (\<lambda>a. False),
       retrieved = [(''https://drive.google.com/uc?export=download&id=ABC123'', ''images/logo.png'')]\<rparr>)
   \<and> process_image_url (PyStr ''https://drive.google.com/about'') ''logo.png''
     \<lparr>can_makedirs = True, retrievable = (\<lambda>a. True), retrieved = []\<rparr>
   = (Inr [], \<lparr>can_makedirs = True, retrievable = (\<lambda>a. True), retrieved = []\<rparr>)
   \<and> process_image_url (PyStr ''https://drive.google.com/file/d/ABC123/view'') ''bg.jpg''
     \<lparr>can_makedirs = True, retrievable = (\<lambda>a. True), retrieved = []\<rparr>
   = (Inr ''images/bg.jpg'',
      \<lparr>can_makedirs = True, retrievable = (\<lambda>a. True),
       retrieved = [(''https://drive.google.com/uc?export=download&id=ABC123'', ''images/bg.jpg'')]\<rparr>)"
proof -
  let ?W = "\<lparr>can_makedirs = True, retrievable = (\<lambda>a. True), retrieved = []\<rparr>"
  let ?V = "\<lparr>can_makedirs = False, retrievable = (\<lambda>a. False), retrieved = []\<rparr>"
  let ?F = "\<lparr>can_makedirs = True, retrievable = (\<lambda>a. False), retrieved = []\<rparr>"
  let ?u = "''https://drive.google.com/file/d/ABC123/view''"
  let ?m = "''https://drive.google.com/about''"
  have ext: "?u \<noteq> [] \<and> \<not> startswith ?u ''images/'' \<and> is_gdrive_url (PyStr ?u)"
    by (simp add: startswith_def is_gdrive_url_def)
  have fid: "extract_gdrive_file_id (PyStr ?u) = Some ''ABC123''"
    by (simp add: extract_gdrive_file_id_def patterns_def startswith_def is_id_char_def)
  then have ident: "extract_gdrive_file_id (PyStr ?u) = Some ''ABC123'' \<and> can_makedirs ?W"
    by simp
  note main = process_image_url_cases [where u = ?u and fn = "''logo.png''" and w = ?W
      and fid = "''ABC123''"]
  note branch = main [THEN conjunct2, THEN conjunct2, THEN conjunct1, THEN mp, OF ext]
  note found = branch [THEN conjunct2, THEN conjunct2, THEN conjunct2, THEN mp, OF ident]
  from found have first: "process_image_url (PyStr ?u) ''logo.png'' ?W =
      (Inr ''images/logo.png'',
       \<lparr>can_makedirs = True, retrievable = (\<lambda>a. True),
        retrieved = [(''https://drive.google.com/uc?export=download&id=ABC123'', ''images/logo.png'')]\<rparr>)"
    by (simp add: images_path_def startswith_def)
  have loc: "startswith ''images/hero.jpg'' ''images/''"
    by (simp add: startswith_def)
  note second = process_image_url_cases
    [where u = "''images/hero.jpg''" and fn = "''logo.png''" and w = ?V,
     THEN conjunct2, THEN conjunct1, THEN mp, OF loc]
  have oth: "''https://example.com/logo.png'' \<noteq> []
      \<and> \<not> startswith ''https://example.com/logo.png'' ''images/''
      \<and> \<not> is_gdrive_url (PyStr ''https://example.com/logo.png'')"
    by (simp add: startswith_def is_gdrive_url_def)
  note third = process_image_url_cases
    [where u = "''https://example.com/logo.png''" and fn = "''logo.png''" and w = ?V,
     THEN conjunct2, THEN conjunct2, THEN conjunct2, THEN mp, OF oth]
  have blank: "\<not> truthy (PyStr [])" by simp
  note fourth = process_image_url_cases
    [where url = "PyStr []" and fn = "''logo.png''" and w = ?V, THEN conjunct1, THEN mp, OF blank]
  have failed: "download_image_from_gdrive (PyStr ?u) ''logo.png'' ?F =
      (Inr False,
       \<lparr>can_makedirs = True, retrievable = (\<lambda>a. False),
        retrieved = [(''https://drive.google.com/uc?export=download&id=ABC123'', ''images/logo.png'')]\<rparr>)"
    unfolding download_image_from_gdrive_def fid
    by (simp add: images_path_def startswith_def)
  note fifth = process_image_url_cases
    [where u = ?u and fn = "''logo.png''" and w = ?F,
     THEN conjunct2, THEN conjunct2, THEN conjunct1, THEN mp, OF ext,
     THEN conjunct2, THEN conjunct1, THEN mp, OF failed]
  have ext_m: "?m \<noteq> [] \<and> \<not> startswith ?m ''images/'' \<and> is_gdrive_url (PyStr ?m)"
    by (simp add: startswith_def is_gdrive_url_def)
  have no_id: "extract_gdrive_file_id (PyStr ?m) = None"
    by (simp add: extract_gdrive_file_id_def patterns_def startswith_def is_id_char_def)
  note sixth = process_image_url_cases
    [where u = ?m and fn = "''logo.png''" and w = ?W,
     THEN conjunct2, THEN conjunct2, THEN conjunct1, THEN mp, OF ext_m,
     THEN conjunct2, THEN conjunct2, THEN conjunct1, THEN mp, OF no_id]
  have succeeded: "download_image_from_gdrive (PyStr ?u) ''bg.jpg'' ?W =
      (Inr True,
       \<lparr>can_makedirs = True, retrievable = (\<lambda>a. True),
        retrieved = [(''https://drive.google.com/uc?export=download&id=ABC123'', ''images/bg.jpg'')]\<rparr>)"
    unfolding download_image_from_gdrive_def fid
    by (simp add: images_path_def startswith_def)
  from process_image_url_cases
    [where u = ?u and fn = "''bg.jpg''" and w = ?W,
     THEN conjunct2, THEN conjunct2, THEN conjunct1, THEN mp, OF ext,
     THEN conjunct1, THEN mp, OF succeeded]
  have seventh: "process_image_url (PyStr ?u) ''bg.jpg'' ?W =
      (Inr ''images/bg.jpg'',
       \<lparr>can_makedirs = True, retrievable = (\<lambda>a. True),
        retrieved = [(''https://drive.google.com/uc?export=download&id=ABC123'', ''images/bg.jpg'')]\<rparr>)"
    by simp
  from first second third fourth fifth sixth seventh show ?thesis by (intro conjI)
qed

text \<open>
  Claim C4 (\<^verbatim>\<open>process_image_url\<close> gives \<^verbatim>\<open>images/<default_filename>\<close> for an external-host
  address when identifier extraction and download both succeed, the empty string on any
  failure, and returns any other address unchanged) fails on the code.
  \<^verbatim>\<open>os.makedirs\<close> stands before the \<^verbatim>\<open>try\<close> block of \<^verbatim>\<open>download_image_from_gdrive\<close>: when
  the images folder cannot be made, the download of an address with an identifier does
  not fail with the empty string, its error leaves \<^verbatim>\<open>process_image_url\<close> uncaught. And an
  address of the host \<^verbatim>\<open>example.com\<close> that names a drive domain in its path is not
  returned unchanged: the substring test takes it for an external image, no identifier
  is found, and the result is the empty string.
\<close>

theorem process_image_url_makedirs_raises:
  "process_image_url (PyStr ''https://drive.google.com/file/d/ABC123/view'') ''logo.png''
     \<lparr>can_makedirs = False, retrievable = (\<lambda>a. True), retrieved = []\<rparr>
   = (Inl OSError, \<lparr>can_makedirs = False, retrievable = (\<lambda>a. True), retrieved = []\<rparr>)
   \<and> process_image_url (PyStr ''https://example.com/drive.google.com/logo.png'') ''logo.png''
     \<lparr>can_makedirs = True, retrievable = (\<lambda>a. True), retrieved = []\<rparr>
   = (Inr [], \<lparr>can_makedirs = True, retrievable = (\<lambda>a. True), retrieved = []\<rparr>)
   \<and> spec_url_host ''https://example.com/drive.google.com/logo.png'' = Some ''example.com''"
proof -
  have fid: "extract_gdrive_file_id (PyStr ''https://drive.google.com/file/d/ABC123/view'')
      = Some ''ABC123''"
    by (simp add: extract_gdrive_file_id_def patterns_def startswith_def is_id_char_def)
  have raised: "download_image_from_gdrive (PyStr ''https://drive.google.com/file/d/ABC123/view'')
      ''logo.png'' \<lparr>can_makedirs = False, retrievable = (\<lambda>a. True), retrieved = []\<rparr>
      = (Inl OSError, \<lparr>can_makedirs = False, retrievable = (\<lambda>a. True), retrieved = []\<rparr>)"
    unfolding download_image_from_gdrive_def fid by simp
  have first: "process_image_url (PyStr ''https://drive.google.com/file/d/ABC123/view'') ''logo.png''
     \<lparr>can_makedirs = False, retrievable = (\<lambda>a. True), retrieved = []\<rparr>
   = (Inl OSError, \<lparr>can_makedirs = False, retrievable = (\<lambda>a. True), retrieved = []\<rparr>)"
    unfolding process_image_url_def raised
    by (simp add: startswith_def is_gdrive_url_def)
  have no_id: "extract_gdrive_file_id (PyStr ''https://example.com/drive.google.com/logo.png'')
      = None"
    by (simp add: extract_gdrive_file_id_def patterns_def startswith_def is_id_char_def)
  have second: "process_image_url (PyStr ''https://example.com/drive.google.com/logo.png'') ''logo.png''
     \<lparr>can_makedirs = True, retrievable = (\<lambda>a. True), retrieved = []\<rparr>
   = (Inr [], \<lparr>can_makedirs = True, retrievable = (\<lambda>a. True), retrieved = []\<rparr>)"
    unfolding process_image_url_def download_image_from_gdrive_def no_id
    by (simp add: startswith_def is_gdrive_url_def)
  have host: "spec_url_host ''https://example.com/drive.google.com/logo.png'' = Some ''example.com''"
    by (simp add: spec_url_host_def startswith_def host_of_authority_def)
  from first second host show ?thesis by (intro conjI)
qed

section \<open>Properties of the service detail parser\<close>

lemma foldl_collect:
  "foldl (\<lambda>acc r. if P r then acc @ [f r] else acc) acc0 rs = acc0 @ map f (filter P rs)"
  by (induction rs arbitrary: acc0) simp_all

lemma parse_service_details_map_filter:
  "parse_service_details data =
     map detail_of (filter (\<lambda>r. truthy (py_get r ''service_id'' PyNone)) data)"
  unfolding parse_service_details_def by (simp add: foldl_collect)

lemma split_loop_nonempty: "split_loop sep cur s \<noteq> []"
  by (induction sep cur s rule: split_loop.induct) simp_all

lemma py_join_Cons: "xs \<noteq> [] \<Longrightarrow> py_join sep (x # xs) = x @ sep @ py_join sep xs"
  by (cases xs) simp_all

lemma split_loop_join: "sep \<noteq> [] \<Longrightarrow> py_join sep (split_loop sep cur s) = cur @ s"
proof (induction sep cur s rule: split_loop.induct)
  case (1 sep cur)
  show ?case by simp
next
  case (2 sep cur c cs)
  show ?case
  proof (cases "startswith (c # cs) sep")
    case True
    then have "c # cs = sep @ drop (length sep) (c # cs)"
      unfolding startswith_def by (metis append_take_drop_id)
    moreover from "2.prems" have "drop (length sep) (c # cs) = drop (length sep - 1) cs"
      by (cases sep) simp_all
    ultimately have whole: "c # cs = sep @ drop (length sep - 1) cs" by simp
    from True "2.prems" "2.IH"(1)
    have "py_join sep (split_loop sep [] (drop (length sep - 1) cs)) = drop (length sep - 1) cs"
      by simp
    with True "2.prems" have "py_join sep (split_loop sep cur (c # cs))
        = cur @ sep @ drop (length sep - 1) cs"
      by (simp add: py_join_Cons split_loop_nonempty)
    with whole show ?thesis by simp
  next
    case False
    with "2.prems" "2.IH"(2) show ?thesis by simp
  qed
qed

lemma split_loop_no_sep:
  "x \<in> set (split_loop [c] cur s) \<Longrightarrow> c \<notin> set cur \<Longrightarrow> c \<notin> set x"
proof (induction "[c]" cur s arbitrary: x rule: split_loop.induct)
  case (1 cur)
  then show ?case by simp
next
  case (2 cur a s)
  show ?case
  proof (cases "a = c")
    case True
    with "2.prems" have "x = cur \<or> x \<in> set (split_loop [c] [] s)"
      by (simp add: startswith_def)
    then show ?thesis
    proof
      assume "x = cur"
      with "2.prems" show ?thesis by simp
    next
      assume "x \<in> set (split_loop [c] [] s)"
      with True "2.hyps"(1) [of x] show ?thesis by (simp add: startswith_def)
    qed
  next
    case False
    with "2.prems" have "x \<in> set (split_loop [c] (cur @ [a]) s)"
      by (simp add: startswith_def)
    with False "2.hyps"(2) [of x] "2.prems"(2) show ?thesis
      by (simp add: startswith_def)
  qed
qed

lemma py_strip_subset: "set (py_strip s) \<subseteq> set s"
proof
  fix x assume "x \<in> set (py_strip s)"
  then have "x \<in> set (dropWhile is_space (rev (dropWhile is_space s)))"
    unfolding py_strip_def by simp
  then have "x \<in> set (rev (dropWhile is_space s))" by (rule set_dropWhileD)
  then have "x \<in> set (dropWhile is_space s)" by simp
  then show "x \<in> set s" by (rule set_dropWhileD)
qed

lemma py_strip_ends:
  assumes "py_strip s \<noteq> []"
  shows "\<not> is_space (hd (py_strip s)) \<and> \<not> is_space (last (py_strip s))"
proof -
  define t where "t = dropWhile is_space s"
  define r where "r = dropWhile is_space (rev t)"
  have strip: "py_strip s = rev r" unfolding py_strip_def r_def t_def by (rule refl)
  with assms have r_ne: "r \<noteq> []" by simp
  then have "\<not> is_space (hd r)" unfolding r_def by (rule hd_dropWhile)
  with r_ne have last_ok: "\<not> is_space (last (rev r))" by (simp add: last_rev)
  have "rev t = takeWhile is_space (rev t) @ r" unfolding r_def by simp
  then have "rev (rev t) = rev (takeWhile is_space (rev t) @ r)" by (rule arg_cong)
  then have t_eq: "t = rev r @ rev (takeWhile is_space (rev t))" by simp
  with r_ne have "t \<noteq> []" by auto
  then have "\<not> is_space (hd t)" unfolding t_def by (rule hd_dropWhile)
  moreover from t_eq r_ne have "hd t = hd (rev r)" by (metis hd_append2 rev_is_Nil_conv)
  ultimately have "\<not> is_space (hd (rev r))" by simp
  with last_ok show ?thesis unfolding strip by simp
qed

lemma bullets_of_members:
  assumes "b \<in> set (bullets_of r)"
  shows "b \<noteq> [] \<and> \<not> is_space (hd b) \<and> \<not> is_space (last b) \<and> CHR ''|'' \<notin> set b"
proof -
  from assms obtain x where b: "b = py_strip x" and ne: "py_strip x \<noteq> []"
    and x: "x \<in> set (if truthy (py_get r ''key_services'' PyNone)
                     then py_split (py_str (py_get r ''key_services'' (PyStr []))) ''|''
                     else [])"
    unfolding bullets_of_def Let_def by auto
  from x have "x \<in> set (py_split (py_str (py_get r ''key_services'' (PyStr []))) ''|'')"
    by (simp split: if_splits)
  then have "CHR ''|'' \<notin> set x"
    unfolding py_split_def by (rule split_loop_no_sep) simp
  with py_strip_subset [of x] have "CHR ''|'' \<notin> set (py_strip x)" by blast
  with ne py_strip_ends [OF ne] show ?thesis unfolding b by simp
qed


lemma bullets_example:
  "r ''key_services'' = Some (PyStr ''One | Two | Three'') \<Longrightarrow>
     bullets_of r = [''One'', ''Two'', ''Three'']"
  by (simp add: bullets_of_def py_get_def py_split_def startswith_def py_strip_def is_space_def)

lemma bullets_blank:
  "r ''key_services'' = Some (PyStr []) \<or> r ''key_services'' = Some PyNone
     \<or> r ''key_services'' = None \<Longrightarrow> bullets_of r = []"
  by (auto simp: bullets_of_def py_get_def)

text \<open>
  Claim C8. \<^verbatim>\<open>parse_service_details\<close> emits one record per row whose \<^verbatim>\<open>service_id\<close> is
  non-empty, in row order, and skips the other rows. The bullets of a record are the
  segments of the row's \<^verbatim>\<open>key_services\<close> between the \<^verbatim>\<open>|\<close> separators (joining the
  segments with \<^verbatim>\<open>|\<close> gives the field back), each trimmed, the empty ones dropped: every
  bullet is non-empty, has no whitespace at either end and contains no separator.
  \<^verbatim>\<open>One | Two | Three\<close> gives the bullets One, Two, Three, and an empty or absent
  \<^verbatim>\<open>key_services\<close> gives none.
\<close>

theorem parse_service_details_bullets:
  "parse_service_details data =
     map detail_of (filter (\<lambda>r. truthy (py_get r ''service_id'' PyNone)) data)
   \<and> sd_bullets (detail_of r) =
       map py_strip (filter (\<lambda>b. py_strip b \<noteq> [])
         (if truthy (py_get r ''key_services'' PyNone)
          then py_split (py_str (py_get r ''key_services'' (PyStr []))) ''|'' else []))
   \<and> py_join ''|'' (py_split s ''|'') = s
   \<and> (\<forall>b \<in> set (sd_bullets (detail_of r)).
         b \<noteq> [] \<and> \<not> is_space (hd b) \<and> \<not> is_space (last b) \<and> CHR ''|'' \<notin> set b)
   \<and> (r ''key_services'' = Some (PyStr ''One | Two | Three'') \<longrightarrow>
         sd_bullets (detail_of r) = [''One'', ''Two'', ''Three''])
   \<and> (r ''key_services'' = Some (PyStr []) \<or> r ''key_services'' = Some PyNone
         \<or> r ''key_services'' = None \<longrightarrow> sd_bullets (detail_of r) = [])"
proof -
  have b: "sd_bullets (detail_of r) = bullets_of r"
    by (simp add: detail_of_def)
  have one: "sd_bullets (detail_of r) =
       map py_strip (filter (\<lambda>b. py_strip b \<noteq> [])
         (if truthy (py_get r ''key_services'' PyNone)
          then py_split (py_str (py_get r ''key_services'' (PyStr []))) ''|'' else []))"
    unfolding b bullets_of_def Let_def by (rule refl)
  have two: "py_join ''|'' (py_split s ''|'') = s"
    unfolding py_split_def by (simp add: split_loop_join)
  have three: "\<forall>b \<in> set (sd_bullets (detail_of r)).
         b \<noteq> [] \<and> \<not> is_space (hd b) \<and> \<not> is_space (last b) \<and> CHR ''|'' \<notin> set b"
    unfolding b by (intro ballI) (rule bullets_of_members)
  have four: "r ''key_services'' = Some (PyStr ''One | Two | Three'') \<longrightarrow>
         sd_bullets (detail_of r) = [''One'', ''Two'', ''Three'']"
    unfolding b by (intro impI) (rule bullets_example)
  have five: "r ''key_services'' = Some (PyStr []) \<or> r ''key_services'' = Some PyNone
         \<or> r ''key_services'' = None \<longrightarrow> sd_bullets (detail_of r) = []"
    unfolding b by (intro impI) (rule bullets_blank)
  from parse_service_details_map_filter one two three four five
  show ?thesis by (intro conjI)
qed

theorem parse_service_details_bullets_witness:
  "map sd_service_id
     (parse_service_details
        [[''service_id'' \<mapsto> PyStr ''audit'', ''key_services'' \<mapsto> PyStr ''One | Two | Three''],
         [''title'' \<mapsto> PyStr ''no id'', ''key_services'' \<mapsto> PyStr ''Lost''],
         [''service_id'' \<mapsto> PyStr [], ''key_services'' \<mapsto> PyStr ''Lost''],
         [''service_id'' \<mapsto> PyStr ''tax'', ''key_services'' \<mapsto> PyStr []]])
     = [PyStr ''audit'', PyStr ''tax'']
   \<and> sd_bullets (detail_of
        [''service_id'' \<mapsto> PyStr ''audit'', ''key_services'' \<mapsto> PyStr ''One | Two | Three''])
     = [''One'', ''Two'', ''Three'']
   \<and> sd_bullets (detail_of [''service_id'' \<mapsto> PyStr ''tax'', ''key_services'' \<mapsto> PyStr []]) = []
   \<and> CHR ''|'' \<notin> set ''Two''"
proof -
  let ?a = "[''service_id'' \<mapsto> PyStr ''audit'', ''key_services'' \<mapsto> PyStr ''One | Two | Three'']"
  let ?t = "[''service_id'' \<mapsto> PyStr ''tax'', ''key_services'' \<mapsto> PyStr []]"
  let ?data = "[?a, [''title'' \<mapsto> PyStr ''no id'', ''key_services'' \<mapsto> PyStr ''Lost''],
         [''service_id'' \<mapsto> PyStr [], ''key_services'' \<mapsto> PyStr ''Lost''], ?t]"
  note main = parse_service_details_bullets [where data = ?data and r = ?a]
  have ka: "?a ''key_services'' = Some (PyStr ''One | Two | Three'')" by simp
  have kt: "?t ''key_services'' = Some (PyStr []) \<or> ?t ''key_services'' = Some PyNone
      \<or> ?t ''key_services'' = None" by simp
  from main [THEN conjunct1]
  have ids: "map sd_service_id (parse_service_details ?data) = [PyStr ''audit'', PyStr ''tax'']"
    by (simp add: py_get_def detail_of_def)
  note bullets = main [THEN conjunct2, THEN conjunct2, THEN conjunct2, THEN conjunct2,
      THEN conjunct1, THEN mp, OF ka]
  note none = parse_service_details_bullets [where r = ?t, THEN conjunct2, THEN conjunct2,
      THEN conjunct2, THEN conjunct2, THEN conjunct2, THEN mp, OF kt]
  have mem: "''Two'' \<in> set (sd_bullets (detail_of ?a))"
    unfolding bullets by simp
  from main [THEN conjunct2, THEN conjunct2, THEN conjunct2, THEN conjunct1, THEN bspec, OF mem]
  have "CHR ''|'' \<notin> set ''Two''" by (elim conjE)
  with ids bullets none show ?thesis by (intro conjI)
qed


lemma image_position_kept:
  "sd_image_position (detail_of r) =
     (case r ''image_position'' of None \<Rightarrow> PyStr ''right'' | Some v \<Rightarrow> v)"
  by (simp add: detail_of_def py_get_def)

text \<open>
  Claim C6 (the image position of every record is \<^verbatim>\<open>left\<close> or \<^verbatim>\<open>right\<close>, and \<^verbatim>\<open>right\<close>
  whenever the cell is not exactly \<^verbatim>\<open>left\<close>) fails on the code. The default of
  \<^verbatim>\<open>row.get('image_position', 'right')\<close> is used only when the row has no such key; a
  blank cell is kept as the empty string, against the comment \<^verbatim>\<open># left or right\<close> on the
  same line. \<^verbatim>\<open>generate_service_detail_section\<close> then disagrees with itself on this record:
  its \<^verbatim>\<open>else\<close> branch gives the mask gradient and the grid order of the right-hand layout,
  its later test for \<^verbatim>\<open>right\<close> leaves the right-hand spacer out, and the section differs
  from the section of the same record with the position \<^verbatim>\<open>right\<close>.
\<close>

theorem image_position_blank_kept:
  "map sd_image_position
     (parse_service_details [[''service_id'' \<mapsto> PyStr ''audit'', ''image_position'' \<mapsto> PyStr []]])
     = [PyStr []]
   \<and> map mask_gradient
     (parse_service_details [[''service_id'' \<mapsto> PyStr ''audit'', ''image_position'' \<mapsto> PyStr []]])
     = [''linear-gradient(to left, rgba(0,0,0,1) 0%, rgba(0,0,0,0.8) 50%, rgba(0,0,0,0) 100%)'']
   \<and> map grid_order
     (parse_service_details [[''service_id'' \<mapsto> PyStr ''audit'', ''image_position'' \<mapsto> PyStr []]])
     = [''                <!-- Text content on the left -->'']
   \<and> map right_spacer
     (parse_service_details [[''service_id'' \<mapsto> PyStr ''audit'', ''image_position'' \<mapsto> PyStr []]])
     = [[]]
   \<and> map (\<lambda>d. generate_service_detail_section d 0)
     (parse_service_details [[''service_id'' \<mapsto> PyStr ''audit'', ''image_position'' \<mapsto> PyStr []]])
     \<noteq> map (\<lambda>d. generate_service_detail_section d 0)
     (parse_service_details [[''service_id'' \<mapsto> PyStr ''audit'', ''image_position'' \<mapsto> PyStr ''right'']])"
proof -
  let ?blank = "[''service_id'' \<mapsto> PyStr ''audit'', ''image_position'' \<mapsto> PyStr []]"
  let ?right = "[''service_id'' \<mapsto> PyStr ''audit'', ''image_position'' \<mapsto> PyStr ''right'']"
  have pb: "parse_service_details [?blank] = [detail_of ?blank]"
    by (simp add: parse_service_details_def py_get_def)
  have pr: "parse_service_details [?right] = [detail_of ?right]"
    by (simp add: parse_service_details_def py_get_def)
  have db: "detail_of ?blank =
      \<lparr>sd_service_id = PyStr ''audit'', sd_title = PyStr [], sd_intro = PyStr [],
       sd_bullets_title = PyStr ''Key Services Include:'', sd_bullets = [], sd_closing = PyStr [],
       sd_bg_image = PyStr [], sd_image_position = PyStr []\<rparr>"
    by (simp add: detail_of_def py_get_def bullets_of_def)
  have dr: "detail_of ?right =
      \<lparr>sd_service_id = PyStr ''audit'', sd_title = PyStr [], sd_intro = PyStr [],
       sd_bullets_title = PyStr ''Key Services Include:'', sd_bullets = [], sd_closing = PyStr [],
       sd_bg_image = PyStr [], sd_image_position = PyStr ''right''\<rparr>"
    by (simp add: detail_of_def py_get_def bullets_of_def)
  have pos: "map sd_image_position (parse_service_details [?blank]) = [PyStr []]"
    unfolding pb db by simp
  have mask: "map mask_gradient (parse_service_details [?blank])
      = [''linear-gradient(to left, rgba(0,0,0,1) 0%, rgba(0,0,0,0.8) 50%, rgba(0,0,0,0) 100%)'']"
    unfolding pb db by (simp add: mask_gradient_def)
  have grid: "map grid_order (parse_service_details [?blank])
      = [''                <!-- Text content on the left -->'']"
    unfolding pb db by (simp add: grid_order_def)
  have spacer: "map right_spacer (parse_service_details [?blank]) = [[]]"
    unfolding pb db by (simp add: right_spacer_def)
  have differ: "generate_service_detail_section (detail_of ?blank) 0
      \<noteq> generate_service_detail_section (detail_of ?right) 0"
    unfolding db dr
    by (simp add: generate_service_detail_section_def Let_def mask_gradient_def grid_order_def
        right_spacer_def text_to_paragraphs_def bullets_html_def newline_def)
  then have sections: "map (\<lambda>d. generate_service_detail_section d 0) (parse_service_details [?blank])
      \<noteq> map (\<lambda>d. generate_service_detail_section d 0) (parse_service_details [?right])"
    unfolding pb pr by simp
  from pos mask grid spacer sections show ?thesis by (intro conjI)
qed

section \<open>Properties of the paragraph reflow\<close>

lemma stripped_parts_members:
  "p \<in> set (stripped_parts s sep) \<Longrightarrow> p \<noteq> [] \<and> \<not> is_space (hd p) \<and> \<not> is_space (last p)"
  unfolding stripped_parts_def using py_strip_ends by auto

lemma stripped_parts_filter:
  "filter (\<lambda>para. para \<noteq> []) (stripped_parts s sep) = stripped_parts s sep"
  unfolding stripped_parts_def by (simp add: filter_map o_def)

lemma stripped_parts_length: "length (stripped_parts s sep) \<le> length (py_split s sep)"
  unfolding stripped_parts_def by simp

lemma strip_all_id:
  "list_all (\<lambda>p. p \<noteq> [] \<and> py_strip p = p) xs \<Longrightarrow>
     map py_strip (filter (\<lambda>p. py_strip p \<noteq> []) xs) = xs"
  by (induction xs) simp_all

lemma py_split_single:
  assumes "sep \<noteq> []" "length (py_split s sep) \<le> 1"
  shows "py_split s sep = [s]"
proof -
  from split_loop_nonempty [of sep "[]" s] assms(2) obtain x where x: "py_split s sep = [x]"
    unfolding py_split_def by (cases "split_loop sep [] s") (auto simp: Suc_le_eq)
  from split_loop_join [OF assms(1), of "[]" s] have "py_join sep (py_split s sep) = s"
    unfolding py_split_def by simp
  with x show ?thesis by simp
qed

lemma text_to_paragraphs_render:
  "text_to_paragraphs text css =
     py_join newline (map (paragraph_block css) (rendered_paragraphs text))"
  unfolding text_to_paragraphs_def rendered_paragraphs_def by simp

lemma rendered_chain:
  "rendered_paragraphs text =
     (if \<not> truthy text then []
      else if py_in ''||'' (py_str text) then stripped_parts (py_str text) ''||''
      else if 1 < length (stripped_parts (py_str text) (newline @ newline))
      then stripped_parts (py_str text) (newline @ newline)
      else if 1 < length (stripped_parts (py_str text) newline)
      then stripped_parts (py_str text) newline
      else if py_strip (py_str text) = [] then [] else [py_strip (py_str text)])"
  unfolding rendered_paragraphs_def paragraphs_of_def Let_def
  by (simp add: stripped_parts_filter not_less)

lemma rendered_members:
  assumes "p \<in> set (rendered_paragraphs text)"
  shows "p \<noteq> [] \<and> \<not> is_space (hd p) \<and> \<not> is_space (last p)"
proof -
  let ?s = "py_str text"
  from assms have "p \<in> set (stripped_parts ?s ''||'')
      \<or> p \<in> set (stripped_parts ?s (newline @ newline))
      \<or> p \<in> set (stripped_parts ?s newline)
      \<or> (p = py_strip ?s \<and> py_strip ?s \<noteq> [])"
    unfolding rendered_chain by (auto split: if_splits)
  then show ?thesis
  proof (elim disjE conjE)
    assume "p \<in> set (stripped_parts ?s ''||'')"
    then show ?thesis by (rule stripped_parts_members)
  next
    assume "p \<in> set (stripped_parts ?s (newline @ newline))"
    then show ?thesis by (rule stripped_parts_members)
  next
    assume "p \<in> set (stripped_parts ?s newline)"
    then show ?thesis by (rule stripped_parts_members)
  next
    assume "p = py_strip ?s" "py_strip ?s \<noteq> []"
    with py_strip_ends [of ?s] show ?thesis by simp
  qed
qed

lemma rendered_agrees_with_spec:
  assumes "list_all (\<lambda>p. p \<noteq> [] \<and> py_strip p = p) (spec_paragraphs s)"
  shows "rendered_paragraphs (PyStr s) = spec_paragraphs s"
proof -
  let ?nn = "newline @ newline"
  have nn: "?nn \<noteq> []" and n: "newline \<noteq> []" by (simp_all add: newline_def)
  have s_ne: "s \<noteq> []"
  proof
    assume "s = []"
    then have "spec_paragraphs s = [[]]"
      by (simp add: spec_paragraphs_def py_split_def newline_def)
    with assms show False by simp
  qed
  show ?thesis
  proof (cases "py_in ''||'' s")
    case True
    with assms have "stripped_parts s ''||'' = py_split s ''||''"
      unfolding stripped_parts_def by (simp add: spec_paragraphs_def strip_all_id)
    with True s_ne show ?thesis
      by (simp add: rendered_chain spec_paragraphs_def)
  next
    case no_pipe: False
    show ?thesis
    proof (cases "1 < length (py_split s ?nn)")
      case True
      with no_pipe assms have eq: "stripped_parts s ?nn = py_split s ?nn"
        unfolding stripped_parts_def by (simp add: spec_paragraphs_def strip_all_id)
      with True no_pipe s_ne show ?thesis
        by (simp add: rendered_chain spec_paragraphs_def)
    next
      case one_nn: False
      with stripped_parts_length [of s ?nn] have short_nn: "\<not> 1 < length (stripped_parts s ?nn)"
        by simp
      show ?thesis
      proof (cases "1 < length (py_split s newline)")
        case True
        with no_pipe one_nn assms have eq: "stripped_parts s newline = py_split s newline"
          unfolding stripped_parts_def by (simp add: spec_paragraphs_def strip_all_id)
        with True no_pipe one_nn short_nn s_ne show ?thesis
          by (simp add: rendered_chain spec_paragraphs_def)
      next
        case one_n: False
        with stripped_parts_length [of s newline]
        have short_n: "\<not> 1 < length (stripped_parts s newline)" by simp
        from no_pipe one_nn one_n have sp: "spec_paragraphs s = [s]"
          by (simp add: spec_paragraphs_def)
        with assms have "py_strip s = s" by simp
        with no_pipe short_nn short_n s_ne sp show ?thesis
          by (simp add: rendered_chain)
      qed
    qed
  qed
qed


text \<open>
  Claim C3, as stated, fails. For a text that is a single space the chain of the claim ends
  in its last case, the whole field as one paragraph; the code reaches the same place,
  keeps the trimmed text, which is empty, and then renders no paragraph block at all.
\<close>

theorem text_to_paragraphs_blank_counterexample:
  "spec_paragraphs '' '' = ['' '']
   \<and> paragraphs_of '' '' = [[]]
   \<and> rendered_paragraphs (PyStr '' '') = []
   \<and> text_to_paragraphs (PyStr '' '') default_css_class = []"
  by (simp add: spec_paragraphs_def paragraphs_of_def rendered_paragraphs_def
      text_to_paragraphs_def stripped_parts_def py_split_def startswith_def py_strip_def
      is_space_def newline_def)

text \<open>
  Claim C3, amended. \<^verbatim>\<open>text_to_paragraphs\<close> renders one block per paragraph, where the
  paragraphs of a non-empty text are: the trimmed non-empty segments of the split on the
  double pipe if the double pipe occurs in the text; otherwise the trimmed non-empty
  segments of the split on blank-line breaks if there is more than one of them; otherwise
  the trimmed non-empty segments of the split on single line breaks if there is more than
  one of them; otherwise the trimmed text if it is not empty. An empty, absent or blank
  text has no paragraph. Every paragraph is non-empty and has no whitespace at either end.
  The paragraphs are those of the chain as the specification words it whenever every
  segment of that chain is non-empty and free of surrounding whitespace.
  \<^verbatim>\<open>A||B||C\<close> has the paragraphs A, B, C in this order, and \<^verbatim>\<open>single line\<close> has exactly one
  block, which holds the whole string.
\<close>

theorem text_to_paragraphs_chain:
  "rendered_paragraphs t =
     (if \<not> truthy t then []
      else if py_in ''||'' (py_str t) then stripped_parts (py_str t) ''||''
      else if 1 < length (stripped_parts (py_str t) (newline @ newline))
      then stripped_parts (py_str t) (newline @ newline)
      else if 1 < length (stripped_parts (py_str t) newline)
      then stripped_parts (py_str t) newline
      else if py_strip (py_str t) = [] then [] else [py_strip (py_str t)])
   \<and> text_to_paragraphs t css =
       py_join newline (map (paragraph_block css) (rendered_paragraphs t))
   \<and> (\<forall>p \<in> set (rendered_paragraphs t).
         p \<noteq> [] \<and> \<not> is_space (hd p) \<and> \<not> is_space (last p))
   \<and> (list_all (\<lambda>p. p \<noteq> [] \<and> py_strip p = p) (spec_paragraphs s) \<longrightarrow>
         rendered_paragraphs (PyStr s) = spec_paragraphs s)
   \<and> rendered_paragraphs (PyStr ''A||B||C'') = [''A'', ''B'', ''C'']
   \<and> rendered_paragraphs (PyStr ''single line'') = [''single line'']
   \<and> text_to_paragraphs (PyStr ''single line'') css = paragraph_block css ''single line''"
proof -
  have members: "\<forall>p \<in> set (rendered_paragraphs t).
         p \<noteq> [] \<and> \<not> is_space (hd p) \<and> \<not> is_space (last p)"
    by (intro ballI) (rule rendered_members)
  have agree: "list_all (\<lambda>p. p \<noteq> [] \<and> py_strip p = p) (spec_paragraphs s) \<longrightarrow>
         rendered_paragraphs (PyStr s) = spec_paragraphs s"
    by (intro impI) (rule rendered_agrees_with_spec)
  have abc: "rendered_paragraphs (PyStr ''A||B||C'') = [''A'', ''B'', ''C'']"
    by (simp add: rendered_paragraphs_def paragraphs_of_def stripped_parts_def py_split_def
        startswith_def py_strip_def is_space_def)
  have single: "rendered_paragraphs (PyStr ''single line'') = [''single line'']"
    by (simp add: rendered_paragraphs_def paragraphs_of_def stripped_parts_def py_split_def
        startswith_def py_strip_def is_space_def newline_def)
  have block: "text_to_paragraphs (PyStr ''single line'') css = paragraph_block css ''single line''"
    unfolding text_to_paragraphs_render single by simp
  from rendered_chain [of t] text_to_paragraphs_render [of t css] members agree abc single block
  show ?thesis by (intro conjI)
qed

theorem text_to_paragraphs_chain_witness:
  "list_all (\<lambda>p. p \<noteq> [] \<and> py_strip p = p) (spec_paragraphs ''A||B||C'')
   \<and> rendered_paragraphs (PyStr ''A||B||C'') = spec_paragraphs ''A||B||C''
   \<and> ''B'' \<in> set (rendered_paragraphs (PyStr ''A||B||C''))
   \<and> \<not> is_space (hd ''B'')"
proof -
  have spec: "spec_paragraphs ''A||B||C'' = [''A'', ''B'', ''C'']"
    by (simp add: spec_paragraphs_def py_split_def startswith_def)
  have trimmed: "list_all (\<lambda>p. p \<noteq> [] \<and> py_strip p = p) (spec_paragraphs ''A||B||C'')"
    unfolding spec by (simp add: py_strip_def is_space_def)
  note main = text_to_paragraphs_chain [where t = "PyStr ''A||B||C''" and s = "''A||B||C''"]
  note agree = main [THEN conjunct2, THEN conjunct2, THEN conjunct2, THEN conjunct1,
      THEN mp, OF trimmed]
  have mem: "''B'' \<in> set (rendered_paragraphs (PyStr ''A||B||C''))"
    unfolding agree spec by simp
  from main [THEN conjunct2, THEN conjunct2, THEN conjunct1, THEN bspec, OF mem]
  have "\<not> is_space (hd ''B'')" by (elim conjE)
  with trimmed agree mem show ?thesis by (intro conjI)
qed

section \<open>Properties of the about parser\<close>

lemma about_step_string:
  assumes "py_get r ''field'' (PyStr []) = PyStr f"
  shows "about_step a r =
     (if f = ''title'' then Inr (a\<lparr>about_title := py_get r ''value'' (PyStr [])\<rparr>)
      else if startswith f ''paragraph''
      then Inr (a\<lparr>about_paragraphs := about_paragraphs a @ [py_get r ''value'' (PyStr [])]\<rparr>)
      else if endswith f ''_number''
      then Inr (a\<lparr>about_stats :=
             put_number (py_replace f ''_number'' []) (py_get r ''value'' (PyStr [])) (about_stats a)\<rparr>)
      else if endswith f ''_label''
      then Inr (a\<lparr>about_stats :=
             put_label (py_replace f ''_label'' []) (py_get r ''value'' (PyStr [])) (about_stats a)\<rparr>)
      else Inr a)"
  unfolding about_step_def Let_def assms by simp

lemma about_step_none:
  "py_get r ''field'' (PyStr []) = PyNone \<Longrightarrow> about_step a r = Inl AttributeError"
  unfolding about_step_def Let_def by simp

lemma about_step_paragraph:
  assumes "is_paragraph_row r"
  shows "about_step a r =
     Inr (a\<lparr>about_paragraphs := about_paragraphs a @ [py_get r ''value'' (PyStr [])]\<rparr>)"
proof -
  from assms obtain f where f: "py_get r ''field'' (PyStr []) = PyStr f"
    and p: "startswith f ''paragraph''"
    unfolding is_paragraph_row_def by (cases "py_get r ''field'' (PyStr [])") simp_all
  from p have "f \<noteq> ''title''" by (auto simp: startswith_def)
  with p show ?thesis unfolding about_step_string [OF f] by simp
qed

lemma about_step_other:
  assumes "\<not> is_paragraph_row r"
  shows "about_step (a\<lparr>about_paragraphs := ps\<rparr>) r =
     (case about_step a r of Inl e \<Rightarrow> Inl e | Inr a' \<Rightarrow> Inr (a'\<lparr>about_paragraphs := ps\<rparr>))"
proof (cases "py_get r ''field'' (PyStr [])")
  case PyNone
  then show ?thesis by (simp add: about_step_none)
next
  case (PyStr f)
  with assms have "\<not> startswith f ''paragraph''"
    unfolding is_paragraph_row_def by simp
  then show ?thesis unfolding about_step_string [OF PyStr] by simp
qed

lemma about_step_other_paragraphs:
  assumes "\<not> is_paragraph_row r" "about_step a r = Inr a'"
  shows "about_paragraphs a' = about_paragraphs a"
proof (cases "py_get r ''field'' (PyStr [])")
  case PyNone
  with assms(2) show ?thesis by (simp add: about_step_none)
next
  case (PyStr f)
  with assms(1) have "\<not> startswith f ''paragraph''"
    unfolding is_paragraph_row_def by simp
  with assms(2) show ?thesis
    unfolding about_step_string [OF PyStr] by (auto split: if_splits)
qed

lemma about_loop_paragraph_rows:
  "about_loop a data = Inr a' \<Longrightarrow>
     about_paragraphs a' =
       about_paragraphs a @ map (\<lambda>r. py_get r ''value'' (PyStr [])) (filter is_paragraph_row data)
     \<and> about_loop (a\<lparr>about_paragraphs := ps\<rparr>) (filter (\<lambda>r. \<not> is_paragraph_row r) data)
         = Inr (a'\<lparr>about_paragraphs := ps\<rparr>)"
proof (induction data arbitrary: a)
  case Nil
  then show ?case by simp
next
  case (Cons r data)
  from Cons.prems obtain b where b: "about_step a r = Inr b" and rest: "about_loop b data = Inr a'"
    by (cases "about_step a r") simp_all
  note ih = Cons.IH [OF rest]
  show ?case
  proof (cases "is_paragraph_row r")
    case True
    from b have bp: "b = a\<lparr>about_paragraphs := about_paragraphs a @ [py_get r ''value'' (PyStr [])]\<rparr>"
      unfolding about_step_paragraph [OF True] by simp
    have "about_loop (b\<lparr>about_paragraphs := ps\<rparr>) (filter (\<lambda>r. \<not> is_paragraph_row r) data)
         = Inr (a'\<lparr>about_paragraphs := ps\<rparr>)"
      using ih by (elim conjE)
    moreover have "b\<lparr>about_paragraphs := ps\<rparr> = a\<lparr>about_paragraphs := ps\<rparr>"
      unfolding bp by simp
    moreover have "about_paragraphs a' =
       about_paragraphs b @ map (\<lambda>r. py_get r ''value'' (PyStr [])) (filter is_paragraph_row data)"
      using ih by (elim conjE)
    ultimately show ?thesis using True by (simp add: bp)
  next
    case False
    from about_step_other_paragraphs [OF False b] have same: "about_paragraphs b = about_paragraphs a" .
    have "about_step (a\<lparr>about_paragraphs := ps\<rparr>) r = Inr (b\<lparr>about_paragraphs := ps\<rparr>)"
      unfolding about_step_other [OF False] b by simp
    with ih False same show ?thesis by simp
  qed
qed


lemma about_step_total:
  "py_get r ''field'' (PyStr []) \<noteq> PyNone \<Longrightarrow> \<exists>a'. about_step a r = Inr a'"
  by (cases "py_get r ''field'' (PyStr [])") (simp_all add: about_step_string)

lemma about_step_error:
  "about_step a r = Inl e \<Longrightarrow> e = AttributeError \<and> py_get r ''field'' (PyStr []) = PyNone"
  by (cases "py_get r ''field'' (PyStr [])")
    (auto simp: about_step_string about_step_none split: if_splits)

lemma about_loop_raises_iff:
  "(\<exists>e. about_loop a data = Inl e) \<longleftrightarrow>
     (\<exists>r \<in> set data. py_get r ''field'' (PyStr []) = PyNone)"
proof (induction data arbitrary: a)
  case Nil
  show ?case by simp
next
  case (Cons r data)
  show ?case
  proof (cases "py_get r ''field'' (PyStr []) = PyNone")
    case True
    then show ?thesis by (simp add: about_step_none)
  next
    case False
    from about_step_total [OF False] obtain a' where "about_step a r = Inr a'" ..
    with False Cons.IH [of a'] show ?thesis by simp
  qed
qed

lemma about_loop_error_kind: "about_loop a data = Inl e \<Longrightarrow> e = AttributeError"
proof (induction data arbitrary: a)
  case Nil
  then show ?case by simp
next
  case (Cons r data)
  then show ?case
    by (cases "about_step a r") (auto dest: about_step_error)
qed

lemma parse_about_total_on_strings:
  "(\<exists>a. parse_about data = Inr a) \<longleftrightarrow>
     (\<forall>r \<in> set data. py_get r ''field'' (PyStr []) \<noteq> PyNone)"
proof -
  let ?init = "\<lparr>about_title = PyStr [], about_paragraphs = [], about_stats = []\<rparr>"
  have "(\<exists>a. about_loop ?init data = Inr a) \<longleftrightarrow> \<not> (\<exists>e. about_loop ?init data = Inl e)"
    by (cases "about_loop ?init data") simp_all
  then show ?thesis
    unfolding parse_about_def about_loop_raises_iff by simp
qed

text \<open>
  Claim C2 (every section parser returns a result for every list of rows, also for rows
  with missing cells, and never raises) fails on the code for \<^verbatim>\<open>parse_about\<close>. A row that
  is shorter than the header has \<^verbatim>\<open>None\<close> in its missing cells. \<^verbatim>\<open>parse_about\<close> reads the field with \<^verbatim>\<open>row.get('field', '')\<close>, whose
  default does not apply to a key that is present with the value \<^verbatim>\<open>None\<close>, and calls
  \<^verbatim>\<open>field.startswith\<close> on it: the parser raises \<^verbatim>\<open>AttributeError\<close> and returns nothing. The
  six other parsers test the cell for truth before they use it and return a result for
  every row list.
\<close>

theorem parse_about_none_field_raises:
  "parse_about [[''value'' \<mapsto> PyStr ''x'', ''field'' \<mapsto> PyNone]] = Inl AttributeError"
  by (simp add: parse_about_def about_step_def py_get_def)

text \<open>
  Claim C10. The dispatch of \<^verbatim>\<open>parse_about\<close> on the field of a row: the exact name
  \<^verbatim>\<open>title\<close> first, then the prefix \<^verbatim>\<open>paragraph\<close>, and only then the suffix \<^verbatim>\<open>_number\<close>,
  before the suffix \<^verbatim>\<open>_label\<close>. So a row whose field starts with \<^verbatim>\<open>paragraph\<close> appends its
  value to the paragraphs and changes nothing else, whatever its suffix; the paragraphs of
  the result are the values of the paragraph rows in order, and dropping the paragraph
  rows from the input changes nothing in the result but the paragraphs (in particular not
  the stats). A row with the field \<^verbatim>\<open>paragraph_count_number\<close> yields a paragraph and no stat.
\<close>

theorem parse_about_precedence:
  "(py_get r ''field'' (PyStr []) = PyStr f \<longrightarrow>
      about_step a r =
        (if f = ''title'' then Inr (a\<lparr>about_title := py_get r ''value'' (PyStr [])\<rparr>)
         else if startswith f ''paragraph''
         then Inr (a\<lparr>about_paragraphs := about_paragraphs a @ [py_get r ''value'' (PyStr [])]\<rparr>)
         else if endswith f ''_number''
         then Inr (a\<lparr>about_stats :=
                put_number (py_replace f ''_number'' []) (py_get r ''value'' (PyStr [])) (about_stats a)\<rparr>)
         else if endswith f ''_label''
         then Inr (a\<lparr>about_stats :=
                put_label (py_replace f ''_label'' []) (py_get r ''value'' (PyStr [])) (about_stats a)\<rparr>)
         else Inr a))
   \<and> (is_paragraph_row r \<longrightarrow>
        about_step a r =
          Inr (a\<lparr>about_paragraphs := about_paragraphs a @ [py_get r ''value'' (PyStr [])]\<rparr>))
   \<and> (parse_about data = Inr a' \<longrightarrow>
        about_paragraphs a' = map (\<lambda>r. py_get r ''value'' (PyStr [])) (filter is_paragraph_row data)
        \<and> parse_about (filter (\<lambda>r. \<not> is_paragraph_row r) data) = Inr (a'\<lparr>about_paragraphs := []\<rparr>))
   \<and> parse_about [[''field'' \<mapsto> PyStr ''paragraph_count_number'', ''value'' \<mapsto> PyStr ''5'']]
       = Inr \<lparr>about_title = PyStr [], about_paragraphs = [PyStr ''5''], about_stats = []\<rparr>"
proof -
  have step: "py_get r ''field'' (PyStr []) = PyStr f \<longrightarrow>
      about_step a r =
        (if f = ''title'' then Inr (a\<lparr>about_title := py_get r ''value'' (PyStr [])\<rparr>)
         else if startswith f ''paragraph''
         then Inr (a\<lparr>about_paragraphs := about_paragraphs a @ [py_get r ''value'' (PyStr [])]\<rparr>)
         else if endswith f ''_number''
         then Inr (a\<lparr>about_stats :=
                put_number (py_replace f ''_number'' []) (py_get r ''value'' (PyStr [])) (about_stats a)\<rparr>)
         else if endswith f ''_label''
         then Inr (a\<lparr>about_stats :=
                put_label (py_replace f ''_label'' []) (py_get r ''value'' (PyStr [])) (about_stats a)\<rparr>)
         else Inr a)"
    by (intro impI) (rule about_step_string)
  have para: "is_paragraph_row r \<longrightarrow>
        about_step a r =
          Inr (a\<lparr>about_paragraphs := about_paragraphs a @ [py_get r ''value'' (PyStr [])]\<rparr>)"
    by (intro impI) (rule about_step_paragraph)
  have whole: "parse_about data = Inr a' \<longrightarrow>
        about_paragraphs a' = map (\<lambda>r. py_get r ''value'' (PyStr [])) (filter is_paragraph_row data)
        \<and> parse_about (filter (\<lambda>r. \<not> is_paragraph_row r) data) = Inr (a'\<lparr>about_paragraphs := []\<rparr>)"
  proof
    assume "parse_about data = Inr a'"
    then have "about_loop \<lparr>about_title = PyStr [], about_paragraphs = [], about_stats = []\<rparr> data
        = Inr a'"
      unfolding parse_about_def .
    from about_loop_paragraph_rows [OF this, of "[]"]
    show "about_paragraphs a' = map (\<lambda>r. py_get r ''value'' (PyStr [])) (filter is_paragraph_row data)
        \<and> parse_about (filter (\<lambda>r. \<not> is_paragraph_row r) data) = Inr (a'\<lparr>about_paragraphs := []\<rparr>)"
      unfolding parse_about_def by simp
  qed
  have ex: "parse_about [[''field'' \<mapsto> PyStr ''paragraph_count_number'', ''value'' \<mapsto> PyStr ''5'']]
       = Inr \<lparr>about_title = PyStr [], about_paragraphs = [PyStr ''5''], about_stats = []\<rparr>"
    by (simp add: parse_about_def about_step_def py_get_def startswith_def)
  from step para whole ex show ?thesis by (intro conjI)
qed

theorem parse_about_precedence_witness:
  "is_paragraph_row [''field'' \<mapsto> PyStr ''paragraph_x_label'', ''value'' \<mapsto> PyStr ''L'']
   \<and> about_step \<lparr>about_title = PyStr [], about_paragraphs = [], about_stats = []\<rparr>
        [''field'' \<mapsto> PyStr ''paragraph_x_label'', ''value'' \<mapsto> PyStr ''L'']
      = Inr \<lparr>about_title = PyStr [], about_paragraphs = [PyStr ''L''], about_stats = []\<rparr>
   \<and> parse_about
        [[''field'' \<mapsto> PyStr ''paragraph_count_number'', ''value'' \<mapsto> PyStr ''5''],
         [''field'' \<mapsto> PyStr ''revenue_number'', ''value'' \<mapsto> PyStr ''7''],
         [''field'' \<mapsto> PyStr ''paragraph_x_label'', ''value'' \<mapsto> PyStr ''L'']]
      = Inr \<lparr>about_title = PyStr [], about_paragraphs = [PyStr ''5'', PyStr ''L''],
             about_stats = [\<lparr>stat_key = ''revenue'', stat_number = PyStr ''7'', stat_label = PyStr []\<rparr>]\<rparr>
   \<and> parse_about
        (filter (\<lambda>r. \<not> is_paragraph_row r)
          [[''field'' \<mapsto> PyStr ''paragraph_count_number'', ''value'' \<mapsto> PyStr ''5''],
           [''field'' \<mapsto> PyStr ''revenue_number'', ''value'' \<mapsto> PyStr ''7''],
           [''field'' \<mapsto> PyStr ''paragraph_x_label'', ''value'' \<mapsto> PyStr ''L'']])
      = Inr \<lparr>about_title = PyStr [], about_paragraphs = [],
             about_stats = [\<lparr>stat_key = ''revenue'', stat_number = PyStr ''7'', stat_label = PyStr []\<rparr>]\<rparr>
   \<and> about_step \<lparr>about_title = PyStr [], about_paragraphs = [], about_stats = []\<rparr>
        [''field'' \<mapsto> PyStr ''revenue_number'', ''value'' \<mapsto> PyStr ''7'']
      = Inr \<lparr>about_title = PyStr [], about_paragraphs = [],
             about_stats = [\<lparr>stat_key = ''revenue'', stat_number = PyStr ''7'', stat_label = PyStr []\<rparr>]\<rparr>"
proof -
  let ?r = "[''field'' \<mapsto> PyStr ''paragraph_x_label'', ''value'' \<mapsto> PyStr ''L'']"
  let ?n = "[''field'' \<mapsto> PyStr ''revenue_number'', ''value'' \<mapsto> PyStr ''7'']"
  let ?init = "\<lparr>about_title = PyStr [], about_paragraphs = [], about_stats = []\<rparr>"
  let ?data = "[[''field'' \<mapsto> PyStr ''paragraph_count_number'', ''value'' \<mapsto> PyStr ''5''],
         [''field'' \<mapsto> PyStr ''revenue_number'', ''value'' \<mapsto> PyStr ''7''], ?r]"
  let ?a = "\<lparr>about_title = PyStr [], about_paragraphs = [PyStr ''5'', PyStr ''L''],
      about_stats = [\<lparr>stat_key = ''revenue'', stat_number = PyStr ''7'', stat_label = PyStr []\<rparr>]\<rparr>"
  have p: "is_paragraph_row ?r"
    by (simp add: is_paragraph_row_def py_get_def startswith_def)
  from parse_about_precedence [where r = ?r and a = ?init, THEN conjunct2, THEN conjunct1, THEN mp, OF p]
  have s: "about_step ?init ?r
      = Inr \<lparr>about_title = PyStr [], about_paragraphs = [PyStr ''L''], about_stats = []\<rparr>"
    by (simp add: py_get_def)
  have run: "parse_about ?data = Inr ?a"
    by (simp add: parse_about_def about_step_def py_get_def startswith_def endswith_def
        put_number_def)
  from parse_about_precedence [where data = ?data and a' = ?a, THEN conjunct2, THEN conjunct2,
      THEN conjunct1, THEN mp, OF run, THEN conjunct2]
  have dropped: "parse_about (filter (\<lambda>r. \<not> is_paragraph_row r) ?data)
      = Inr \<lparr>about_title = PyStr [], about_paragraphs = [],
             about_stats = [\<lparr>stat_key = ''revenue'', stat_number = PyStr ''7'', stat_label = PyStr []\<rparr>]\<rparr>"
    by simp
  have fld: "py_get ?n ''field'' (PyStr []) = PyStr ''revenue_number''"
    by (simp add: py_get_def)
  from parse_about_precedence [where r = ?n and f = "''revenue_number''" and a = ?init,
      THEN conjunct1, THEN mp, OF fld]
  have dispatch: "about_step ?init ?n
      = Inr \<lparr>about_title = PyStr [], about_paragraphs = [],
             about_stats = [\<lparr>stat_key = ''revenue'', stat_number = PyStr ''7'', stat_label = PyStr []\<rparr>]\<rparr>"
    by (simp add: py_get_def startswith_def endswith_def put_number_def)
  from p s run dropped dispatch show ?thesis by (intro conjI)
qed

section \<open>Properties of the stats merge\<close>

lemma first_seen_snoc:
  "first_seen (xs @ [k]) = (if k \<in> set xs then first_seen xs else first_seen xs @ [k])"
  unfolding first_seen_def by simp

lemma set_first_seen: "set (first_seen xs) = set xs"
  unfolding first_seen_def by simp

lemma distinct_first_seen: "distinct (first_seen xs)"
  unfolding first_seen_def by simp

lemma last_value_snoc:
  "last_value b k (es @ [e]) =
     (if fst e = k \<and> fst (snd e) = b then snd (snd e) else last_value b k es)"
  unfolding last_value_def by simp

lemma last_value_absent: "k \<notin> fst ` set es \<Longrightarrow> last_value b k es = PyStr []"
proof -
  assume "k \<notin> fst ` set es"
  then have "List.find (\<lambda>e. fst e = k \<and> fst (snd e) = b) (rev es) = None"
    unfolding find_None_iff by (auto simp: image_iff)
  then show ?thesis unfolding last_value_def by simp
qed

lemma find_in_map:
  assumes "\<And>k'. stat_key (g k') = k'"
  shows "List.find (\<lambda>s. stat_key s = k) (map g ks) = (if k \<in> set ks then Some (g k) else None)"
  using assms by (induction ks) auto

lemma update_first_map:
  assumes "\<And>k'. stat_key (g k') = k'" "distinct ks"
  shows "update_first k f (map g ks) = map (\<lambda>k'. if k' = k then f (g k') else g k') ks"
  using assms(2)
proof (induction ks)
  case Nil
  show ?case by simp
next
  case (Cons x ks)
  show ?case
  proof (cases "x = k")
    case True
    with Cons.prems have "k \<notin> set ks" by simp
    then have "map (\<lambda>k'. if k' = k then f (g k') else g k') ks = map g ks"
      by (intro map_cong) auto
    with True assms(1) show ?thesis by simp
  next
    case False
    with Cons assms(1) show ?thesis by simp
  qed
qed

lemma apply_entry_merged:
  "apply_entry e (merged_stats es) = merged_stats (es @ [e])"
proof -
  obtain k b v where e: "e = (k, b, v)" by (cases e)
  define g where "g = (\<lambda>k. \<lparr>stat_key = k, stat_number = last_value True k es,
      stat_label = last_value False k es\<rparr>)"
  define g' where "g' = (\<lambda>k. \<lparr>stat_key = k, stat_number = last_value True k (es @ [e]),
      stat_label = last_value False k (es @ [e])\<rparr>)"
  define ks where "ks = first_seen (map fst es)"
  have key: "stat_key (g k') = k'" for k' by (simp add: g_def)
  have dist: "distinct ks" unfolding ks_def by (rule distinct_first_seen)
  have mem: "k \<in> set ks \<longleftrightarrow> k \<in> fst ` set es"
    unfolding ks_def set_first_seen by simp
  have old: "merged_stats es = map g ks"
    unfolding merged_stats_def g_def ks_def by (rule refl)
  have other: "k' \<noteq> k \<Longrightarrow> g' k' = g k'" for k'
    unfolding g'_def g_def by (simp add: last_value_snoc e)
  show ?thesis
  proof (cases "k \<in> set ks")
    case True
    then have new: "merged_stats (es @ [e]) = map g' ks"
      unfolding merged_stats_def g'_def ks_def
      by (simp add: first_seen_snoc e set_first_seen)
    have upd: "g' k' = (if k' = k
        then (if b then (g k')\<lparr>stat_number := v\<rparr> else (g k')\<lparr>stat_label := v\<rparr>)
        else g k')" for k'
      unfolding g'_def g_def by (simp add: last_value_snoc e)
    show ?thesis
    proof (cases b)
      case b: True
      have "apply_entry e (map g ks) = update_first k (\<lambda>s. s\<lparr>stat_number := v\<rparr>) (map g ks)"
        unfolding apply_entry_def put_number_def find_in_map [of g, OF key]
        using True b by (simp add: e)
      also have "\<dots> = map (\<lambda>k'. if k' = k then (g k')\<lparr>stat_number := v\<rparr> else g k') ks"
        by (rule update_first_map [OF key dist])
      also have "\<dots> = map g' ks"
        by (intro map_cong refl) (simp add: upd b)
      finally show ?thesis unfolding old new .
    next
      case b: False
      have "apply_entry e (map g ks) = update_first k (\<lambda>s. s\<lparr>stat_label := v\<rparr>) (map g ks)"
        unfolding apply_entry_def put_label_def find_in_map [of g, OF key]
        using True b by (simp add: e)
      also have "\<dots> = map (\<lambda>k'. if k' = k then (g k')\<lparr>stat_label := v\<rparr> else g k') ks"
        by (rule update_first_map [OF key dist])
      also have "\<dots> = map g' ks"
        by (intro map_cong refl) (simp add: upd b)
      finally show ?thesis unfolding old new .
    qed
  next
    case False
    then have new: "merged_stats (es @ [e]) = map g' ks @ [g' k]"
      unfolding merged_stats_def g'_def ks_def
      by (simp add: first_seen_snoc e set_first_seen)
    from False have same: "map g' ks = map g ks"
      by (intro map_cong refl other) auto
    from False mem have absent: "last_value c k es = PyStr []" for c
      by (intro last_value_absent) simp
    have fresh: "g' k = (if b then \<lparr>stat_key = k, stat_number = v, stat_label = PyStr []\<rparr>
        else \<lparr>stat_key = k, stat_number = PyStr [], stat_label = v\<rparr>)"
      unfolding g'_def by (simp add: last_value_snoc e absent)
    have "apply_entry e (map g ks) = map g ks @ [g' k]"
      unfolding apply_entry_def put_number_def put_label_def find_in_map [of g, OF key] fresh
      using False by (simp add: e)
    then show ?thesis unfolding old new same .
  qed
qed

lemma foldl_apply_entry:
  "foldl (\<lambda>st e. apply_entry e st) [] es = merged_stats es"
proof (induction es rule: rev_induct)
  case Nil
  show ?case by (simp add: merged_stats_def first_seen_def)
next
  case (snoc e es)
  then show ?case by (simp add: apply_entry_merged)
qed


lemma about_step_stats:
  assumes "about_step a r = Inr a'"
  shows "about_stats a' =
     (case stat_entry r of None \<Rightarrow> about_stats a | Some e \<Rightarrow> apply_entry e (about_stats a))"
proof (cases "py_get r ''field'' (PyStr [])")
  case PyNone
  with assms show ?thesis by (simp add: about_step_none)
next
  case (PyStr f)
  from assms show ?thesis
    unfolding about_step_string [OF PyStr] stat_entry_def PyStr
    by (auto simp: apply_entry_def startswith_def split: if_splits)
qed

lemma about_loop_stats:
  "about_loop a data = Inr a' \<Longrightarrow>
     about_stats a' = foldl (\<lambda>st e. apply_entry e st) (about_stats a) (stat_entries data)"
proof (induction data arbitrary: a)
  case Nil
  then show ?case by (simp add: stat_entries_def)
next
  case (Cons r data)
  from Cons.prems obtain b where b: "about_step a r = Inr b" and rest: "about_loop b data = Inr a'"
    by (cases "about_step a r") simp_all
  from Cons.IH [OF rest] about_step_stats [OF b] show ?case
    by (simp add: stat_entries_def map_filter_simps split: option.splits)
qed

lemma parse_about_stats:
  assumes "parse_about data = Inr a"
  shows "about_stats a = merged_stats (stat_entries data)"
proof -
  from assms have "about_loop \<lparr>about_title = PyStr [], about_paragraphs = [], about_stats = []\<rparr> data
      = Inr a"
    unfolding parse_about_def .
  from about_loop_stats [OF this] show ?thesis
    by (simp add: foldl_apply_entry)
qed

lemma startswith_butlast:
  assumes "startswith (a # xs) suf" "length suf \<le> length xs"
  shows "startswith (butlast (a # xs)) suf"
proof -
  from assms(2) have "length suf < length (a # xs)" by simp
  then have "take (length suf) (butlast (a # xs)) = take (length suf) (a # xs)"
    by (rule take_butlast)
  with assms(1) show ?thesis unfolding startswith_def by simp
qed

lemma replace_only_suffix:
  assumes "suf \<noteq> []"
  shows "\<not> py_in suf (butlast (k @ suf)) \<Longrightarrow> py_replace (k @ suf) suf [] = k"
proof (induction k)
  case Nil
  from assms obtain c cs where suf: "suf = c # cs" by (cases suf) simp_all
  have "startswith (c # cs) (c # cs)" unfolding startswith_def by simp
  then show ?case unfolding suf by simp
next
  case (Cons a k)
  from assms have ne: "k @ suf \<noteq> []" by simp
  then have bl: "butlast ((a # k) @ suf) = a # butlast (k @ suf)" by simp
  from Cons.prems have no_here: "\<not> startswith (a # butlast (k @ suf)) suf"
    and no_later: "\<not> py_in suf (butlast (k @ suf))"
    unfolding bl by simp_all
  have "\<not> startswith (a # k @ suf) suf"
  proof
    assume "startswith (a # k @ suf) suf"
    then have "startswith (butlast (a # k @ suf)) suf"
      by (rule startswith_butlast) simp
    then have "startswith (a # butlast (k @ suf)) suf"
      using bl by simp
    with no_here show False by (rule notE)
  qed
  with Cons.IH [OF no_later] show ?case by simp
qed

lemma replace_suffix_stripped:
  assumes "suf \<noteq> []" "endswith f suf" "\<not> py_in suf (butlast f)"
  shows "py_replace f suf [] = take (length f - length suf) f"
proof -
  define k where "k = take (length f - length suf) f"
  from assms(2) have f: "f = k @ suf"
    unfolding endswith_def k_def by (metis append_take_drop_id)
  from assms(3) have "py_replace (k @ suf) suf [] = k"
    unfolding f by (rule replace_only_suffix [OF assms(1)])
  then have "py_replace f suf [] = k" unfolding f .
  then show ?thesis unfolding k_def .
qed


lemma endswith_last: "endswith f p \<Longrightarrow> p \<noteq> [] \<Longrightarrow> last f = last p"
proof -
  assume e: "endswith f p" and p: "p \<noteq> []"
  from e have "f = take (length f - length p) f @ p"
    unfolding endswith_def by (metis append_take_drop_id)
  then have "last f = last (take (length f - length p) f @ p)" by simp
  with p show ?thesis by simp
qed

lemma label_not_number: "endswith f ''_label'' \<Longrightarrow> \<not> endswith f ''_number''"
proof
  assume "endswith f ''_label''" "endswith f ''_number''"
  then have "last f = last ''_label''" "last f = last ''_number''"
    by (auto dest: endswith_last)
  then show False by simp
qed

lemma stat_entry_number:
  assumes "py_get r ''field'' (PyStr []) = PyStr f" "f \<noteq> ''title''"
    "\<not> startswith f ''paragraph''" "endswith f ''_number''" "\<not> py_in ''_number'' (butlast f)"
  shows "stat_entry r = Some (take (length f - length ''_number'') f, True, py_get r ''value'' (PyStr []))"
proof -
  have "py_replace f ''_number'' [] = take (length f - length ''_number'') f"
    using assms(4,5) by (intro replace_suffix_stripped) simp_all
  with assms(1-4) show ?thesis unfolding stat_entry_def by simp
qed

lemma stat_entry_label:
  assumes "py_get r ''field'' (PyStr []) = PyStr f" "f \<noteq> ''title''"
    "\<not> startswith f ''paragraph''" "endswith f ''_label''" "\<not> py_in ''_label'' (butlast f)"
  shows "stat_entry r = Some (take (length f - length ''_label'') f, False, py_get r ''value'' (PyStr []))"
proof -
  have "py_replace f ''_label'' [] = take (length f - length ''_label'') f"
    using assms(4,5) by (intro replace_suffix_stripped) simp_all
  with assms(1-4) label_not_number [OF assms(4)] show ?thesis unfolding stat_entry_def by simp
qed

text \<open>
  Claim C1, as stated, fails. A field that starts with \<^verbatim>\<open>paragraph\<close> and ends in \<^verbatim>\<open>_number\<close>
  goes to the paragraphs, not to the stats; and the stat key is the field with every
  occurrence of the suffix text removed, so the field \<^verbatim>\<open>a_number_number\<close> has the key
  \<^verbatim>\<open>a\<close>, not \<^verbatim>\<open>a_number\<close>.
\<close>

theorem parse_about_routing_counterexample:
  "parse_about
     [[''field'' \<mapsto> PyStr ''paragraph_count_number'', ''value'' \<mapsto> PyStr ''5''],
      [''field'' \<mapsto> PyStr ''a_number_number'', ''value'' \<mapsto> PyStr ''7'']]
   = Inr \<lparr>about_title = PyStr [], about_paragraphs = [PyStr ''5''],
          about_stats = [\<lparr>stat_key = ''a'', stat_number = PyStr ''7'', stat_label = PyStr []\<rparr>]\<rparr>"
  by (simp add: parse_about_def about_step_def py_get_def startswith_def endswith_def
      put_number_def)

text \<open>
  Claim C1, amended. Whenever \<^verbatim>\<open>parse_about\<close> returns, its stats are the merge of the stat
  entries of the rows, where a row has a stat entry when its field is not \<^verbatim>\<open>title\<close>, does
  not start with \<^verbatim>\<open>paragraph\<close> and ends in \<^verbatim>\<open>_number\<close> or \<^verbatim>\<open>_label\<close>: there is one stat per
  stat key, the stats stand in the order in which their keys are first seen, and the number
  (the label) of a stat is the value of the last row that names the number (the label) of
  its key, and the empty string when no row does. When the suffix text occurs in the field
  only at its end, the stat key is the field with the suffix stripped. The rows
  title = X, paragraph1 = A, revenue_number = 5, revenue_label = Clients give the title X,
  the paragraph A and the one stat revenue, 5, Clients.
\<close>

theorem parse_about_stats_merge:
  "(parse_about data = Inr a \<longrightarrow>
      about_stats a = merged_stats (stat_entries data)
      \<and> map stat_key (about_stats a) = first_seen (map fst (stat_entries data))
      \<and> distinct (map stat_key (about_stats a))
      \<and> (\<forall>s \<in> set (about_stats a).
            stat_number s = last_value True (stat_key s) (stat_entries data)
            \<and> stat_label s = last_value False (stat_key s) (stat_entries data)))
   \<and> (py_get r ''field'' (PyStr []) = PyStr f \<and> f \<noteq> ''title'' \<and> \<not> startswith f ''paragraph''
        \<and> endswith f ''_number'' \<and> \<not> py_in ''_number'' (butlast f) \<longrightarrow>
        stat_entry r = Some (take (length f - length ''_number'') f, True, py_get r ''value'' (PyStr [])))
   \<and> (py_get r ''field'' (PyStr []) = PyStr f \<and> f \<noteq> ''title'' \<and> \<not> startswith f ''paragraph''
        \<and> endswith f ''_label'' \<and> \<not> py_in ''_label'' (butlast f) \<longrightarrow>
        stat_entry r = Some (take (length f - length ''_label'') f, False, py_get r ''value'' (PyStr [])))
   \<and> parse_about
        [[''field'' \<mapsto> PyStr ''title'', ''value'' \<mapsto> PyStr ''X''],
         [''field'' \<mapsto> PyStr ''paragraph1'', ''value'' \<mapsto> PyStr ''A''],
         [''field'' \<mapsto> PyStr ''revenue_number'', ''value'' \<mapsto> PyStr ''5''],
         [''field'' \<mapsto> PyStr ''revenue_label'', ''value'' \<mapsto> PyStr ''Clients'']]
      = Inr \<lparr>about_title = PyStr ''X'', about_paragraphs = [PyStr ''A''],
             about_stats = [\<lparr>stat_key = ''revenue'', stat_number = PyStr ''5'',
                             stat_label = PyStr ''Clients''\<rparr>]\<rparr>"
proof -
  have merge: "parse_about data = Inr a \<longrightarrow>
      about_stats a = merged_stats (stat_entries data)
      \<and> map stat_key (about_stats a) = first_seen (map fst (stat_entries data))
      \<and> distinct (map stat_key (about_stats a))
      \<and> (\<forall>s \<in> set (about_stats a).
            stat_number s = last_value True (stat_key s) (stat_entries data)
            \<and> stat_label s = last_value False (stat_key s) (stat_entries data))"
  proof
    assume "parse_about data = Inr a"
    then have m: "about_stats a = merged_stats (stat_entries data)"
      by (rule parse_about_stats)
    have keys: "map stat_key (merged_stats es) = first_seen (map fst es)" for es
      unfolding merged_stats_def by (simp add: o_def)
    have vals: "\<forall>s \<in> set (merged_stats es).
            stat_number s = last_value True (stat_key s) es
            \<and> stat_label s = last_value False (stat_key s) es" for es
      unfolding merged_stats_def by simp
    show "about_stats a = merged_stats (stat_entries data)
      \<and> map stat_key (about_stats a) = first_seen (map fst (stat_entries data))
      \<and> distinct (map stat_key (about_stats a))
      \<and> (\<forall>s \<in> set (about_stats a).
            stat_number s = last_value True (stat_key s) (stat_entries data)
            \<and> stat_label s = last_value False (stat_key s) (stat_entries data))"
      unfolding m keys using vals by (simp add: distinct_first_seen)
  qed
  have number: "py_get r ''field'' (PyStr []) = PyStr f \<and> f \<noteq> ''title'' \<and> \<not> startswith f ''paragraph''
        \<and> endswith f ''_number'' \<and> \<not> py_in ''_number'' (butlast f) \<longrightarrow>
        stat_entry r = Some (take (length f - length ''_number'') f, True, py_get r ''value'' (PyStr []))"
    using stat_entry_number by (intro impI) (elim conjE)
  have label: "py_get r ''field'' (PyStr []) = PyStr f \<and> f \<noteq> ''title'' \<and> \<not> startswith f ''paragraph''
        \<and> endswith f ''_label'' \<and> \<not> py_in ''_label'' (butlast f) \<longrightarrow>
        stat_entry r = Some (take (length f - length ''_label'') f, False, py_get r ''value'' (PyStr []))"
    using stat_entry_label by (intro impI) (elim conjE)
  have ex: "parse_about
        [[''field'' \<mapsto> PyStr ''title'', ''value'' \<mapsto> PyStr ''X''],
         [''field'' \<mapsto> PyStr ''paragraph1'', ''value'' \<mapsto> PyStr ''A''],
         [''field'' \<mapsto> PyStr ''revenue_number'', ''value'' \<mapsto> PyStr ''5''],
         [''field'' \<mapsto> PyStr ''revenue_label'', ''value'' \<mapsto> PyStr ''Clients'']]
      = Inr \<lparr>about_title = PyStr ''X'', about_paragraphs = [PyStr ''A''],
             about_stats = [\<lparr>stat_key = ''revenue'', stat_number = PyStr ''5'',
                             stat_label = PyStr ''Clients''\<rparr>]\<rparr>"
    by (simp add: parse_about_def about_step_def py_get_def startswith_def endswith_def
        put_number_def put_label_def)
  from merge number label ex show ?thesis by (intro conjI)
qed


theorem parse_about_stats_merge_witness:
  "parse_about
     [[''field'' \<mapsto> PyStr ''title'', ''value'' \<mapsto> PyStr ''X''],
      [''field'' \<mapsto> PyStr ''revenue_number'', ''value'' \<mapsto> PyStr ''5''],
      [''field'' \<mapsto> PyStr ''team_label'', ''value'' \<mapsto> PyStr ''People''],
      [''field'' \<mapsto> PyStr ''revenue_label'', ''value'' \<mapsto> PyStr ''Clients''],
      [''field'' \<mapsto> PyStr ''revenue_number'', ''value'' \<mapsto> PyStr ''6'']]
   = Inr \<lparr>about_title = PyStr ''X'', about_paragraphs = [],
          about_stats =
            [\<lparr>stat_key = ''revenue'', stat_number = PyStr ''6'', stat_label = PyStr ''Clients''\<rparr>,
             \<lparr>stat_key = ''team'', stat_number = PyStr [], stat_label = PyStr ''People''\<rparr>]\<rparr>
   \<and> first_seen (map fst (stat_entries
     [[''field'' \<mapsto> PyStr ''title'', ''value'' \<mapsto> PyStr ''X''],
      [''field'' \<mapsto> PyStr ''revenue_number'', ''value'' \<mapsto> PyStr ''5''],
      [''field'' \<mapsto> PyStr ''team_label'', ''value'' \<mapsto> PyStr ''People''],
      [''field'' \<mapsto> PyStr ''revenue_label'', ''value'' \<mapsto> PyStr ''Clients''],
      [''field'' \<mapsto> PyStr ''revenue_number'', ''value'' \<mapsto> PyStr ''6'']]))
     = [''revenue'', ''team'']
   \<and> stat_entry [''field'' \<mapsto> PyStr ''revenue_number'', ''value'' \<mapsto> PyStr ''5'']
     = Some (''revenue'', True, PyStr ''5'')
   \<and> stat_entry [''field'' \<mapsto> PyStr ''team_label'', ''value'' \<mapsto> PyStr ''People'']
     = Some (''team'', False, PyStr ''People'')
   \<and> last_value True ''team'' (stat_entries
     [[''field'' \<mapsto> PyStr ''title'', ''value'' \<mapsto> PyStr ''X''],
      [''field'' \<mapsto> PyStr ''revenue_number'', ''value'' \<mapsto> PyStr ''5''],
      [''field'' \<mapsto> PyStr ''team_label'', ''value'' \<mapsto> PyStr ''People''],
      [''field'' \<mapsto> PyStr ''revenue_label'', ''value'' \<mapsto> PyStr ''Clients''],
      [''field'' \<mapsto> PyStr ''revenue_number'', ''value'' \<mapsto> PyStr ''6'']]) = PyStr []"
proof -
  let ?n = "[''field'' \<mapsto> PyStr ''revenue_number'', ''value'' \<mapsto> PyStr ''5'']"
  let ?l = "[''field'' \<mapsto> PyStr ''team_label'', ''value'' \<mapsto> PyStr ''People'']"
  let ?data = "[[''field'' \<mapsto> PyStr ''title'', ''value'' \<mapsto> PyStr ''X''], ?n, ?l,
      [''field'' \<mapsto> PyStr ''revenue_label'', ''value'' \<mapsto> PyStr ''Clients''],
      [''field'' \<mapsto> PyStr ''revenue_number'', ''value'' \<mapsto> PyStr ''6'']]"
  let ?res = "\<lparr>about_title = PyStr ''X'', about_paragraphs = [],
          about_stats =
            [\<lparr>stat_key = ''revenue'', stat_number = PyStr ''6'', stat_label = PyStr ''Clients''\<rparr>,
             \<lparr>stat_key = ''team'', stat_number = PyStr [], stat_label = PyStr ''People''\<rparr>]\<rparr>"
  have run: "parse_about ?data = Inr ?res"
    by (simp add: parse_about_def about_step_def py_get_def startswith_def endswith_def
        put_number_def put_label_def)
  note merged = parse_about_stats_merge [where data = ?data and a = ?res, THEN conjunct1,
      THEN mp, OF run]
  from merged [THEN conjunct2, THEN conjunct1]
  have order: "first_seen (map fst (stat_entries ?data)) = [''revenue'', ''team'']"
    by simp
  have hn: "py_get ?n ''field'' (PyStr []) = PyStr ''revenue_number'' \<and> ''revenue_number'' \<noteq> ''title''
      \<and> \<not> startswith ''revenue_number'' ''paragraph'' \<and> endswith ''revenue_number'' ''_number''
      \<and> \<not> py_in ''_number'' (butlast ''revenue_number'')"
    by (simp add: py_get_def startswith_def endswith_def)
  from parse_about_stats_merge [where r = ?n and f = "''revenue_number''", THEN conjunct2,
      THEN conjunct1, THEN mp, OF hn]
  have number: "stat_entry ?n = Some (''revenue'', True, PyStr ''5'')"
    by (simp add: py_get_def)
  have hl: "py_get ?l ''field'' (PyStr []) = PyStr ''team_label'' \<and> ''team_label'' \<noteq> ''title''
      \<and> \<not> startswith ''team_label'' ''paragraph'' \<and> endswith ''team_label'' ''_label''
      \<and> \<not> py_in ''_label'' (butlast ''team_label'')"
    by (simp add: py_get_def startswith_def endswith_def)
  from parse_about_stats_merge [where r = ?l and f = "''team_label''", THEN conjunct2,
      THEN conjunct2, THEN conjunct1, THEN mp, OF hl]
  have label: "stat_entry ?l = Some (''team'', False, PyStr ''People'')"
    by (simp add: py_get_def)
  have mem: "\<lparr>stat_key = ''team'', stat_number = PyStr [], stat_label = PyStr ''People''\<rparr>
      \<in> set (about_stats ?res)"
    by simp
  from merged [THEN conjunct2, THEN conjunct2, THEN conjunct2, THEN bspec, OF mem, THEN conjunct1]
  have partial: "last_value True ''team'' (stat_entries ?data) = PyStr []"
    by simp
  from run order number label partial show ?thesis by (intro conjI)
qed

end
